theory Spec2Isabelle
  imports Complex_Main "HOL-Library.Word"
begin

section \<open>Receipt parsing: the field extractors of \<open>api/services/ocr_service.py\<close>\<close>

text \<open>
  The development embeds the text-processing core of \<open>OCRService\<close> (the methods
  \<open>_parse_expense_data\<close>, \<open>_extract_amount\<close>, \<open>_extract_date\<close>,
  \<open>_extract_merchant\<close>, \<open>_extract_items\<close>, \<open>_determine_category\<close>), the method
  \<open>parse_receipt\<close> that drives them, and the route \<open>parse_receipt\<close> of
  \<open>api/routers/receipts.py\<close>. A leading underscore of a Python name is dropped, since an
  Isabelle name starts with a letter.

  A Python \<open>str\<close> is modelled as a \<open>string\<close> whose characters stand for the code points
  U+0000 to U+00FF; the character classes below are the ones Python 3 uses for these code
  points. Code points beyond U+00FF are outside the model.
\<close>

subsection \<open>Characters and strings\<close>

definition is_digit :: "char \<Rightarrow> bool" where
  \<comment> \<open>\<open>\d\<close> of \<open>re\<close> on \<open>str\<close>: the decimal digits\<close>
  "is_digit c = (let n = (of_char c :: nat) in 48 \<le> n \<and> n \<le> 57)"

definition is_space :: "char \<Rightarrow> bool" where
  \<comment> \<open>\<open>str.isspace\<close>, the characters removed by \<open>str.strip()\<close> and matched by \<open>\s\<close>\<close>
  "is_space c =
     (let n = (of_char c :: nat)
      in (9 \<le> n \<and> n \<le> 13) \<or> (28 \<le> n \<and> n \<le> 32) \<or> n = 133 \<or> n = 160)"

definition is_word :: "char \<Rightarrow> bool" where
  \<comment> \<open>\<open>\w\<close> of \<open>re\<close> on \<open>str\<close>: alphanumeric characters and the underscore\<close>
  "is_word c =
     (let n = (of_char c :: nat)
      in (48 \<le> n \<and> n \<le> 57) \<or> (65 \<le> n \<and> n \<le> 90) \<or> n = 95 \<or> (97 \<le> n \<and> n \<le> 122)
         \<or> n = 170 \<or> n = 178 \<or> n = 179 \<or> n = 181 \<or> n = 185 \<or> n = 186
         \<or> (188 \<le> n \<and> n \<le> 190) \<or> (192 \<le> n \<and> n \<le> 214) \<or> (216 \<le> n \<and> n \<le> 246)
         \<or> 248 \<le> n)"

definition is_upper :: "char \<Rightarrow> bool" where
  \<comment> \<open>the characters that \<open>str.lower()\<close> changes\<close>
  "is_upper c =
     (let n = (of_char c :: nat)
      in (65 \<le> n \<and> n \<le> 90) \<or> (192 \<le> n \<and> n \<le> 214) \<or> (216 \<le> n \<and> n \<le> 222))"

definition lower_char :: "char \<Rightarrow> char" where
  "lower_char c = (if is_upper c then char_of ((of_char c :: nat) + 32) else c)"

definition lower :: "string \<Rightarrow> string" where
  \<comment> \<open>\<open>str.lower()\<close>\<close>
  "lower s = map lower_char s"

definition strip :: "string \<Rightarrow> string" where
  \<comment> \<open>\<open>str.strip()\<close>\<close>
  "strip s = rev (dropWhile is_space (rev (dropWhile is_space s)))"

fun split_on :: "char \<Rightarrow> string \<Rightarrow> string list" where
  \<comment> \<open>\<open>str.split(sep)\<close> for a separator of one character\<close>
  "split_on sep [] = [[]]"
| "split_on sep (c # cs) =
     (if c = sep then [] # split_on sep cs
      else (case split_on sep cs of
              [] \<Rightarrow> [[c]]
            | w # ws \<Rightarrow> (c # w) # ws))"

fun startswith :: "string \<Rightarrow> string \<Rightarrow> bool" where
  \<comment> \<open>\<open>s.startswith(p)\<close>, as \<open>startswith s p\<close>\<close>
  "startswith s [] = True"
| "startswith [] (p # ps) = False"
| "startswith (c # cs) (p # ps) = (c = p \<and> startswith cs ps)"

fun contains :: "string \<Rightarrow> string \<Rightarrow> bool" where
  \<comment> \<open>\<open>k in s\<close> on strings, as \<open>contains k s\<close>\<close>
  "contains k [] = (k = [])"
| "contains k (c # cs) = (startswith (c # cs) k \<or> contains k cs)"

subsection \<open>Floats\<close>

text \<open>
  A Python \<open>float\<close> is an IEEE 754 binary64 number. The extractors only build floats by
  \<open>float(s)\<close> on strings of digits with at most one decimal point, so the values are
  non-negative: a float is modelled by the rational number it denotes, or by positive
  infinity. \<open>float(s)\<close> rounds the decimal number to the nearest binary64 number, ties to
  the even significand, and gives infinity from \<open>2 ^ 1024\<close> on.
\<close>

datatype pyfloat = Finite rat | PosInf

fun bit_length :: "nat \<Rightarrow> nat" where
  "bit_length n = (if n = 0 then 0 else Suc (bit_length (n div 2)))"

definition round_half_even :: "nat \<Rightarrow> nat \<Rightarrow> nat" where
  \<comment> \<open>the integer nearest to \<open>n / d\<close>, the even one of two equally near\<close>
  "round_half_even n d =
     (let q = n div d; r = n mod d
      in if 2 * r < d then q else if d < 2 * r then q + 1 else if even q then q else q + 1)"

definition scale2 :: "nat \<Rightarrow> nat \<Rightarrow> int \<Rightarrow> nat \<times> nat" where
  \<comment> \<open>the fraction \<open>n / d\<close> divided by \<open>2 ^ x\<close>\<close>
  "scale2 n d x = (if x < 0 then (n * 2 ^ nat (- x), d) else (n, d * 2 ^ nat x))"

definition ulp_exponent :: "nat \<Rightarrow> nat \<Rightarrow> int" where
  \<comment> \<open>the exponent \<open>x\<close> of the binary64 spacing at \<open>n / d\<close>: \<open>2 ^ 52 \<le> n / d / 2 ^ x < 2 ^ 53\<close>,
      and \<open>- 1074\<close> in the subnormal range\<close>
  "ulp_exponent n d =
     (let x0 = int (bit_length n) - int (bit_length d) - 53;
          (n0, d0) = scale2 n d x0;
          x = (if 2 ^ 53 \<le> n0 div d0 then x0 + 1 else x0)
      in max x (- 1074))"

definition round_to_double :: "nat \<Rightarrow> nat \<Rightarrow> pyfloat" where
  \<comment> \<open>the binary64 number nearest to \<open>n / d\<close>, for \<open>0 < d\<close>\<close>
  "round_to_double n d =
     (if n = 0 then Finite 0
      else let x = ulp_exponent n d;
               (n1, d1) = scale2 n d x;
               m = round_half_even n1 d1
           in if 971 \<le> x \<and> 2 ^ 53 \<le> m * 2 ^ nat (x - 971) then PosInf
              else Finite (of_nat m * 2 powi x))"

definition digit_value :: "char \<Rightarrow> nat" where
  "digit_value c = of_char c - 48"

definition digits_value :: "string \<Rightarrow> nat" where
  "digits_value ds = foldl (\<lambda>a c. 10 * a + digit_value c) 0 ds"

definition py_float :: "string \<Rightarrow> pyfloat option" where
  \<comment> \<open>\<open>float(s)\<close> on the strings the patterns of this module capture: digits, then
      optionally a point and digits. \<open>None\<close> is \<open>ValueError\<close>. Python accepts further
      forms (signs, exponents, surrounding blanks, \<open>inf\<close>, \<open>nan\<close>) that no pattern here
      captures.\<close>
  "py_float s =
     (let ip = takeWhile is_digit s
      in if ip = [] then None
         else (case dropWhile is_digit s of
                 [] \<Rightarrow> Some (round_to_double (digits_value ip) 1)
               | c # fp \<Rightarrow>
                   if c = CHR ''.'' \<and> list_all is_digit fp
                   then Some (round_to_double (digits_value (ip @ fp)) (10 ^ length fp))
                   else None))"

fun float_le :: "pyfloat \<Rightarrow> pyfloat \<Rightarrow> bool" where
  "float_le (Finite a) (Finite b) = (a \<le> b)"
| "float_le a PosInf = True"
| "float_le PosInf (Finite b) = False"

fun float_lt :: "pyfloat \<Rightarrow> pyfloat \<Rightarrow> bool" where
  "float_lt (Finite a) (Finite b) = (a < b)"
| "float_lt a PosInf = (a \<noteq> PosInf)"
| "float_lt PosInf (Finite b) = False"

fun py_max_from :: "pyfloat \<Rightarrow> pyfloat list \<Rightarrow> pyfloat" where
  \<comment> \<open>the loop of \<open>max\<close>: a later element replaces the maximum only when it is greater\<close>
  "py_max_from m [] = m"
| "py_max_from m (x # xs) = py_max_from (if float_lt m x then x else m) xs"

subsection \<open>Regular expressions\<close>

text \<open>
  The patterns of the module are written in the following syntax, which covers what they
  use: literal text, a character class repeated greedily between two bounds (\<open>c\<close>,
  \<open>c?\<close>, \<open>c*\<close>, \<open>c+\<close>, \<open>c{m,n}\<close>), alternation, concatenation, one capturing group, and
  the anchors \<open>^\<close> and \<open>$\<close> (no \<open>MULTILINE\<close> flag).
\<close>

datatype cls =
    Digit                 \<comment> \<open>\<open>\d\<close>\<close>
  | Space                 \<comment> \<open>\<open>\s\<close>\<close>
  | Word                  \<comment> \<open>\<open>\w\<close>\<close>
  | Chars string          \<comment> \<open>one of the listed characters\<close>
  | Union "cls list"      \<comment> \<open>\<open>[...]\<close>\<close>
  | Compl "cls list"      \<comment> \<open>\<open>[^...]\<close>\<close>

fun in_cls :: "cls \<Rightarrow> char \<Rightarrow> bool" where
  "in_cls Digit c = is_digit c"
| "in_cls Space c = is_space c"
| "in_cls Word c = is_word c"
| "in_cls (Chars cs) c = (c \<in> set cs)"
| "in_cls (Union ks) c = list_ex (\<lambda>k. in_cls k c) ks"
| "in_cls (Compl ks) c = (\<not> list_ex (\<lambda>k. in_cls k c) ks)"

datatype regex =
    Lit string                    \<comment> \<open>literal text\<close>
  | Rep cls nat "nat option"      \<comment> \<open>a class repeated greedily, at least and at most\<close>
  | Alt "regex list"              \<comment> \<open>\<open>a|b|...\<close>, tried from the left\<close>
  | Seq "regex list"
  | Group regex                   \<comment> \<open>\<open>(...)\<close>, capturing\<close>
  | Bol                           \<comment> \<open>\<open>^\<close>\<close>
  | Eol                           \<comment> \<open>\<open>$\<close>: the end, or before a newline that ends the string\<close>

text \<open>
  A matcher state is the position reached, the input that remains, and the text of the
  group if it has been captured. \<open>matches r st\<close> lists the states in which a match of
  \<open>r\<close> from \<open>st\<close> can end, in the order in which the backtracking matcher of \<open>re\<close> tries
  them; the match \<open>re\<close> reports is the first.
\<close>

type_synonym mstate = "nat \<times> string \<times> string option"

fun matches :: "regex \<Rightarrow> mstate \<Rightarrow> mstate list" where
  "matches (Lit l) (pos, s, cap) =
     (if startswith s l then [(pos + length l, drop (length l) s, cap)] else [])"
| "matches (Rep k lo hi) (pos, s, cap) =
     (let n = length (takeWhile (in_cls k) s);
          m = (case hi of None \<Rightarrow> n | Some h \<Rightarrow> min h n)
      in map (\<lambda>j. (pos + j, drop j s, cap)) (rev [lo ..< Suc m]))"
| "matches (Alt rs) st = concat (map (\<lambda>r. matches r st) rs)"
| "matches (Seq []) st = [st]"
| "matches (Seq (r # rs)) st = concat (map (matches (Seq rs)) (matches r st))"
| "matches (Group r) (pos, s, cap) =
     map (\<lambda>(pos', s', cap'). (pos', s', Some (take (pos' - pos) s))) (matches r (pos, s, cap))"
| "matches Bol (pos, s, cap) = (if pos = 0 then [(pos, s, cap)] else [])"
| "matches Eol (pos, s, cap) = (if s = [] \<or> s = [CHR 0x0A] then [(pos, s, cap)] else [])"

definition re_match :: "regex \<Rightarrow> string \<Rightarrow> mstate option" where
  \<comment> \<open>\<open>re.match(r, s)\<close>: a match at the start of \<open>s\<close>\<close>
  "re_match r s = (case matches r (0, s, None) of [] \<Rightarrow> None | m # ms \<Rightarrow> Some m)"

fun search_from :: "regex \<Rightarrow> nat \<Rightarrow> string \<Rightarrow> mstate option" where
  "search_from r pos s =
     (case matches r (pos, s, None) of
        m # ms \<Rightarrow> Some m
      | [] \<Rightarrow> (case s of [] \<Rightarrow> None | c # cs \<Rightarrow> search_from r (Suc pos) cs))"

definition re_search :: "regex \<Rightarrow> string \<Rightarrow> mstate option" where
  \<comment> \<open>\<open>re.search(r, s)\<close>: the match at the leftmost position that has one\<close>
  "re_search r s = search_from r 0 s"

definition group1 :: "mstate \<Rightarrow> string option" where
  \<comment> \<open>\<open>m.group(1)\<close>\<close>
  "group1 m = snd (snd m)"

text \<open>
  \<open>scan\<close> cuts a string into the successive non-overlapping matches of a pattern and the
  characters between them, as \<open>re.findall\<close> and \<open>re.sub\<close> do. Every pattern of the module
  consumes at least one character; for a pattern that matches the empty string, \<open>scan\<close>
  records the empty match and moves on by one character.
\<close>

datatype piece = Unmatched char | Matched string "string option"

fun scan :: "regex \<Rightarrow> nat \<Rightarrow> nat \<Rightarrow> string \<Rightarrow> piece list" where
  "scan r pos skip [] =
     (if skip = 0
      then (case matches r (pos, [], None) of
              [] \<Rightarrow> []
            | (e, s', cap) # ms \<Rightarrow> [Matched [] cap])
      else [])"
| "scan r pos (Suc skip) (c # cs) = scan r (Suc pos) skip cs"
| "scan r pos 0 (c # cs) =
     (case matches r (pos, c # cs, None) of
        [] \<Rightarrow> Unmatched c # scan r (Suc pos) 0 cs
      | (e, s', cap) # ms \<Rightarrow>
          if e = pos then Matched [] cap # Unmatched c # scan r (Suc pos) 0 cs
          else Matched (take (e - pos) (c # cs)) cap # scan r (Suc pos) (e - pos - 1) cs)"

fun has_group :: "regex \<Rightarrow> bool" where
  "has_group (Group r) = True"
| "has_group (Alt rs) = list_ex has_group rs"
| "has_group (Seq rs) = list_ex has_group rs"
| "has_group r = False"

fun findall_item :: "bool \<Rightarrow> piece \<Rightarrow> string option" where
  "findall_item g (Unmatched c) = None"
| "findall_item g (Matched t cap) =
     Some (if g then (case cap of None \<Rightarrow> [] | Some x \<Rightarrow> x) else t)"

definition re_findall :: "regex \<Rightarrow> string \<Rightarrow> string list" where
  \<comment> \<open>\<open>re.findall(r, s)\<close> for a pattern with at most one group: the text of the group, or
      of the whole match when there is no group\<close>
  "re_findall r s = List.map_filter (findall_item (has_group r)) (scan r 0 0 s)"

fun sub_item :: "string \<Rightarrow> piece \<Rightarrow> string" where
  "sub_item repl (Unmatched c) = [c]"
| "sub_item repl (Matched t cap) = repl"

definition re_sub :: "regex \<Rightarrow> string \<Rightarrow> string \<Rightarrow> string" where
  \<comment> \<open>\<open>re.sub(r, repl, s)\<close> for a replacement text without escapes\<close>
  "re_sub r repl s = concat (map (sub_item repl) (scan r 0 0 s))"

subsection \<open>Records of the parsed data\<close>

record Item =
  name :: string
  price :: pyfloat

record ParsedData =
  amount :: "pyfloat option"
  date :: "string option"
  merchant :: string
  items :: "Item list"
  category :: string
  description :: string

text \<open>The enumeration \<open>ExpenseCategory\<close> of \<open>models/expense.py\<close> and its string values.\<close>

datatype ExpenseCategory =
  FOOD | TRANSPORT | SHOPPING | ENTERTAINMENT | BILLS | HEALTHCARE | OTHER

fun category_value :: "ExpenseCategory \<Rightarrow> string" where
  "category_value FOOD = ''food''"
| "category_value TRANSPORT = ''transport''"
| "category_value SHOPPING = ''shopping''"
| "category_value ENTERTAINMENT = ''entertainment''"
| "category_value BILLS = ''bills''"
| "category_value HEALTHCARE = ''healthcare''"
| "category_value OTHER = ''other''"

subsection \<open>\<open>_determine_category\<close>\<close>

definition food_keywords :: "string list" where
  "food_keywords = [''restaurant'', ''cafe'', ''coffee'', ''pizza'', ''burger'', ''food'',
     ''dining'', ''kitchen'', ''bistro'', ''grill'']"

definition shopping_keywords :: "string list" where
  "shopping_keywords = [''store'', ''shop'', ''market'', ''mall'', ''retail'', ''walmart'',
     ''target'', ''amazon'']"

definition transport_keywords :: "string list" where
  "transport_keywords = [''gas'', ''fuel'', ''station'', ''uber'', ''taxi'', ''bus'', ''metro'',
     ''parking'']"

definition bills_keywords :: "string list" where
  "bills_keywords = [''electric'', ''water'', ''internet'', ''phone'', ''utility'', ''bill'',
     ''payment'']"

definition health_keywords :: "string list" where
  "health_keywords = [''pharmacy'', ''hospital'', ''clinic'', ''medical'', ''doctor'', ''health'']"

definition any_keyword :: "string list \<Rightarrow> string \<Rightarrow> bool" where
  \<comment> \<open>\<open>any(keyword in merchant_lower for keyword in keywords)\<close>\<close>
  "any_keyword keywords merchant_lower = list_ex (\<lambda>keyword. contains keyword merchant_lower) keywords"

definition determine_category :: "string \<Rightarrow> Item list \<Rightarrow> string" where
  "determine_category mrch its =
     (let merchant_lower = (if mrch \<noteq> [] then lower mrch else [])
      in if any_keyword food_keywords merchant_lower then ''food''
         else if any_keyword shopping_keywords merchant_lower then ''shopping''
         else if any_keyword transport_keywords merchant_lower then ''transport''
         else if any_keyword bills_keywords merchant_lower then ''bills''
         else if any_keyword health_keywords merchant_lower then ''healthcare''
         else ''other'')"

subsection \<open>\<open>_extract_amount\<close>\<close>

definition price_re :: regex where
  \<comment> \<open>\<open>\d+\.\d{2}\<close>\<close>
  "price_re = Seq [Rep Digit 1 None, Lit ''.'', Rep Digit 2 (Some 2)]"

definition number_re :: regex where
  \<comment> \<open>\<open>\d+\.?\d*\<close>\<close>
  "number_re = Seq [Rep Digit 1 None, Rep (Chars ''.'') 0 (Some 1), Rep Digit 0 None]"

definition amount_patterns :: "regex list" where
  \<open>amount_patterns =
    [ \<comment> \<open>\<open>(?:total|amount|sum|grand total|subtotal)[:\s]*\$?(\d+\.?\d*)\<close>\<close>
      Seq [Alt [Lit ''total'', Lit ''amount'', Lit ''sum'', Lit ''grand total'', Lit ''subtotal''],
           Rep (Union [Chars '':'', Space]) 0 None,
           Rep (Chars ''$'') 0 (Some 1),
           Group number_re],
      \<comment> \<open>\<open>total[:\s]*(\d+\.\d{2})\<close>\<close>
      Seq [Lit ''total'', Rep (Union [Chars '':'', Space]) 0 None, Group price_re],
      \<comment> \<open>\<open>\$(\d+\.\d{2})\<close>\<close>
      Seq [Lit ''$'', Group price_re],
      \<comment> \<open>\<open>(\d+\.\d{2})\s*(?:total|$)\<close>\<close>
      Seq [Group price_re, Rep Space 0 None, Alt [Lit ''total'', Eol]],
      \<comment> \<open>\<open>(\d+\.\d{2})\<close>\<close>
      Group price_re ]\<close>

definition lit_0_01 :: pyfloat where
  \<comment> \<open>the literal \<open>0.01\<close>\<close>
  "lit_0_01 = round_to_double 1 100"

definition lit_10000 :: pyfloat where
  \<comment> \<open>the literal \<open>10000\<close>\<close>
  "lit_10000 = Finite 10000"

definition reasonable :: "pyfloat \<Rightarrow> bool" where
  \<comment> \<open>\<open>0.01 <= amount <= 10000\<close>\<close>
  "reasonable a = (float_le lit_0_01 a \<and> float_le a lit_10000)"

fun amounts_of_matches :: "string list \<Rightarrow> pyfloat list \<Rightarrow> pyfloat list" where
  \<comment> \<open>the loop \<open>for match in matches\<close>, from the list \<open>amounts\<close> built so far\<close>
  "amounts_of_matches [] amounts = amounts"
| "amounts_of_matches (m # ms) amounts =
     (case py_float m of
        None \<Rightarrow> amounts_of_matches ms amounts
      | Some a \<Rightarrow>
          if reasonable a then amounts_of_matches ms (amounts @ [a])
          else amounts_of_matches ms amounts)"

fun amounts_of_patterns :: "regex list \<Rightarrow> string \<Rightarrow> pyfloat list \<Rightarrow> pyfloat list" where
  \<comment> \<open>the loop \<open>for pattern in patterns\<close>\<close>
  "amounts_of_patterns [] text_lower amounts = amounts"
| "amounts_of_patterns (p # ps) text_lower amounts =
     amounts_of_patterns ps text_lower (amounts_of_matches (re_findall p text_lower) amounts)"

definition extract_amount :: "string \<Rightarrow> pyfloat option" where
  "extract_amount txt =
     (let text_lower = lower txt;
          amounts = amounts_of_patterns amount_patterns text_lower []
      in case amounts of [] \<Rightarrow> None | a # as \<Rightarrow> Some (py_max_from a as))"

subsection \<open>\<open>_extract_date\<close>\<close>

definition date_sep :: regex where
  \<comment> \<open>\<open>[/-]\<close>\<close>
  "date_sep = Rep (Chars ''/-'') 1 (Some 1)"

definition date_patterns :: "regex list" where
  \<open>date_patterns =
    [ \<comment> \<open>\<open>(\d{1,2}[/-]\d{1,2}[/-]\d{2,4})\<close>\<close>
      Group (Seq [Rep Digit 1 (Some 2), date_sep, Rep Digit 1 (Some 2), date_sep,
                  Rep Digit 2 (Some 4)]),
      \<comment> \<open>\<open>(\d{4}[/-]\d{1,2}[/-]\d{1,2})\<close>\<close>
      Group (Seq [Rep Digit 4 (Some 4), date_sep, Rep Digit 1 (Some 2), date_sep,
                  Rep Digit 1 (Some 2)]),
      \<comment> \<open>\<open>(\d{1,2}\s+\w+\s+\d{4})\<close>\<close>
      Group (Seq [Rep Digit 1 (Some 2), Rep Space 1 None, Rep Word 1 None, Rep Space 1 None,
                  Rep Digit 4 (Some 4)]),
      \<comment> \<open>\<open>(\w+\s+\d{1,2},?\s+\d{4})\<close>\<close>
      Group (Seq [Rep Word 1 None, Rep Space 1 None, Rep Digit 1 (Some 2),
                  Rep (Chars '','') 0 (Some 1), Rep Space 1 None, Rep Digit 4 (Some 4)]) ]\<close>

fun first_date :: "regex list \<Rightarrow> string \<Rightarrow> string option" where
  \<comment> \<open>the loop \<open>for pattern in date_patterns\<close>\<close>
  "first_date [] txt = None"
| "first_date (p # ps) txt =
     (case re_search p txt of
        Some m \<Rightarrow> group1 m
      | None \<Rightarrow> first_date ps txt)"

definition extract_date :: "string \<Rightarrow> string option" where
  "extract_date txt = first_date date_patterns txt"

subsection \<open>\<open>_extract_merchant\<close>\<close>

definition date_prefix_re :: regex where
  \<comment> \<open>\<open>^\d+[/-]\d+\<close>\<close>
  "date_prefix_re = Seq [Bol, Rep Digit 1 None, Rep (Chars ''/-'') 1 (Some 1), Rep Digit 1 None]"

definition numeric_only_re :: regex where
  \<comment> \<open>\<open>^[\d\s\-\.\$]+$\<close>\<close>
  "numeric_only_re =
     Seq [Bol, Rep (Union [Digit, Space, Chars ''-'', Chars ''.'', Chars ''$'']) 1 None, Eol]"

fun merchant_of_lines :: "string list \<Rightarrow> string" where
  \<comment> \<open>the loop \<open>for line in lines[:5]\<close> and the return after it\<close>
  "merchant_of_lines [] = ''Unknown Merchant''"
| "merchant_of_lines (line # rest) =
     (if re_match date_prefix_re line \<noteq> None \<or> length line < 3 then merchant_of_lines rest
      else if re_match numeric_only_re line \<noteq> None then merchant_of_lines rest
      else line)"

definition extract_merchant :: "string list \<Rightarrow> string" where
  "extract_merchant lines = merchant_of_lines (take 5 lines)"

subsection \<open>\<open>_extract_items\<close>\<close>

datatype py_exception =
    ValueError string     \<comment> \<open>raised by \<open>float\<close>, with the string it refused\<close>
  | EngineError string    \<comment> \<open>raised by the recognition engine, with its message\<close>

definition item_price_re :: regex where
  \<comment> \<open>\<open>\$?(\d+\.\d{2})\<close>\<close>
  "item_price_re = Seq [Rep (Chars ''$'') 0 (Some 1), Group price_re]"

definition item_price_text_re :: regex where
  \<comment> \<open>\<open>\$?\d+\.\d{2}\<close>\<close>
  "item_price_text_re =
     Seq [Rep (Chars ''$'') 0 (Some 1), Rep Digit 1 None, Lit ''.'', Rep Digit 2 (Some 2)]"

definition non_word_re :: regex where
  \<comment> \<open>\<open>[^\w\s]\<close>\<close>
  "non_word_re = Rep (Compl [Word, Space]) 1 (Some 1)"

fun items_of_lines :: "string list \<Rightarrow> Item list \<Rightarrow> py_exception + Item list" where
  \<comment> \<open>the loop \<open>for line in lines\<close>, from the list \<open>items\<close> built so far; \<open>float\<close> is
      called outside any \<open>try\<close>, so its exception leaves the loop\<close>
  "items_of_lines [] its = Inr its"
| "items_of_lines (line # rest) its =
     (let price_matches = re_findall item_price_re line
      in if price_matches \<noteq> [] then
           (let item_name = strip (re_sub item_price_text_re [] line);
                item_name = strip (re_sub non_word_re '' '' item_name)
            in if item_name \<noteq> [] \<and> 2 < length item_name then
                 (case py_float (last price_matches) of
                    None \<Rightarrow> Inl (ValueError (last price_matches))
                  | Some p \<Rightarrow> items_of_lines rest (its @ [\<lparr>name = item_name, price = p\<rparr>]))
               else items_of_lines rest its)
         else items_of_lines rest its)"

definition extract_items :: "string list \<Rightarrow> py_exception + Item list" where
  "extract_items lines =
     (case items_of_lines lines [] of
        Inl e \<Rightarrow> Inl e
      | Inr its \<Rightarrow> Inr (take 10 its))"

subsection \<open>\<open>_parse_expense_data\<close>\<close>

definition lines_of :: "string \<Rightarrow> string list" where
  \<comment> \<open>\<open>[line.strip() for line in text.split('\n') if line.strip()]\<close>\<close>
  "lines_of txt = map strip (filter (\<lambda>line. strip line \<noteq> []) (split_on (CHR 0x0A) txt))"

definition parse_expense_data :: "string \<Rightarrow> py_exception + ParsedData" where
  "parse_expense_data txt =
     (let lines = lines_of txt;
          amt = extract_amount txt;
          dt = extract_date txt;
          mrch = extract_merchant lines
      in case extract_items lines of
           Inl e \<Rightarrow> Inl e
         | Inr its \<Rightarrow>
             Inr \<lparr> amount = amt, date = dt, merchant = mrch, items = its,
                   category = determine_category mrch its,
                   description = (if mrch \<noteq> [] then ''Receipt from '' @ mrch
                                  else ''Receipt expense'') \<rparr>)"

subsection \<open>\<open>OCRService.parse_receipt\<close> and the route \<open>/receipts/parse\<close>\<close>

text \<open>
  The image library and the recognition engine are outside the module: they are
  parameters of the model. \<open>imdecode\<close> gives \<open>None\<close> where \<open>_read_image_safely\<close> returns
  \<open>None\<close> (the decoder returns \<open>None\<close> or an image of size 0, or it raises); \<open>enhance\<close>
  is the sequence of OpenCV calls of \<open>_preprocess_image\<close>, \<open>None\<close> where one of them
  raises; \<open>image_to_string\<close> is the recognition, \<open>Inl\<close> where it raises.
  \<open>parse_receipt\<close> records the calls made to them in a list of events, in order: the read
  and the decoding of \<open>_read_image_safely\<close>, the enhancement of \<open>_preprocess_image\<close>, the
  recognition.
\<close>

record UploadFile =
  content_type :: "string option"
  contents :: "8 word list"

record 'img library =
  imdecode :: "8 word list \<Rightarrow> 'img option"
  enhance :: "'img \<Rightarrow> 'img option"
  image_to_string :: "'img \<Rightarrow> py_exception + string"

datatype event = FileRead | ImageDecode | ImageEnhance | TextRecognition

datatype ocr_result =
    OcrSuccess string ParsedData   \<comment> \<open>\<open>success: True\<close>, \<open>raw_text\<close>, \<open>parsed_data\<close>\<close>
  | OcrFailure string              \<comment> \<open>\<open>success: False\<close>, \<open>error\<close>\<close>

datatype http_result =
    HTTPException nat string       \<comment> \<open>status code and detail\<close>
  | ParseResponse string ParsedData string   \<comment> \<open>\<open>raw_text\<close>, \<open>parsed_data\<close>, \<open>message\<close>\<close>

definition py_repr :: "string \<Rightarrow> string" where
  \<comment> \<open>\<open>repr\<close> of a string without quotes, backslashes or unprintable characters\<close>
  "py_repr s = [CHR 0x27] @ s @ [CHR 0x27]"

fun str_of_exception :: "py_exception \<Rightarrow> string" where
  \<comment> \<open>\<open>str(e)\<close>\<close>
  "str_of_exception (ValueError s) = ''could not convert string to float: '' @ py_repr s"
| "str_of_exception (EngineError msg) = msg"

definition read_image_safely :: "'img library \<Rightarrow> UploadFile \<Rightarrow> 'img option" where
  "read_image_safely lib file = imdecode lib (contents file)"

definition preprocess_image :: "'img library \<Rightarrow> 'img \<Rightarrow> 'img" where
  "preprocess_image lib img = (case enhance lib img of Some thresh \<Rightarrow> thresh | None \<Rightarrow> img)"

definition parse_receipt ::
  "'img library \<Rightarrow> UploadFile \<Rightarrow> event list \<Rightarrow> ocr_result \<times> event list" where
  "parse_receipt lib file evs =
     (case read_image_safely lib file of
        None \<Rightarrow> (OcrFailure ''Could not read image file'', evs @ [FileRead, ImageDecode])
      | Some img \<Rightarrow>
          (let processed_image = preprocess_image lib img;
               evs' = evs @ [FileRead, ImageDecode, ImageEnhance, TextRecognition]
           in case image_to_string lib processed_image of
                Inl e \<Rightarrow> (OcrFailure (str_of_exception e), evs')
              | Inr raw_text \<Rightarrow>
                  (case parse_expense_data raw_text of
                     Inl e \<Rightarrow> (OcrFailure (str_of_exception e), evs')
                   | Inr parsed_data \<Rightarrow> (OcrSuccess raw_text parsed_data, evs'))))"

definition is_image_type :: "string option \<Rightarrow> bool" where
  \<comment> \<open>\<open>file.content_type and file.content_type.startswith('image/')\<close>\<close>
  "is_image_type ct =
     (case ct of None \<Rightarrow> False | Some t \<Rightarrow> t \<noteq> [] \<and> startswith t ''image/'')"

definition parse_receipt_route ::
  "'img library \<Rightarrow> UploadFile \<Rightarrow> event list \<Rightarrow> http_result \<times> event list" where
  \<comment> \<open>the route \<open>parse_receipt\<close> of \<open>routers/receipts.py\<close>, after authentication\<close>
  "parse_receipt_route lib file evs =
     (if \<not> is_image_type (content_type file)
      then (HTTPException 400 ''File must be an image'', evs)
      else (case parse_receipt lib file evs of
              (OcrFailure err, evs') \<Rightarrow> (HTTPException 400 err, evs')
            | (OcrSuccess raw_text parsed_data, evs') \<Rightarrow>
                (ParseResponse raw_text parsed_data ''Receipt parsed successfully'', evs')))"

subsection \<open>The wording of the specification\<close>

text \<open>
  The amount extractor as the specification words it: every match of every pattern on the
  lowercased text; these matches parsed; of the values, the ones in the plausible range.
\<close>

definition amount_matches :: "string \<Rightarrow> string list" where
  "amount_matches txt = concat (map (\<lambda>p. re_findall p (lower txt)) amount_patterns)"

definition amount_candidates :: "string \<Rightarrow> pyfloat list" where
  "amount_candidates txt = List.map_filter py_float (amount_matches txt)"

definition surviving_amounts :: "string \<Rightarrow> pyfloat list" where
  "surviving_amounts txt = filter reasonable (amount_candidates txt)"

text \<open>
  The disqualification of a line as the specification words it: the line starts with a
  group of digits, a slash, and a group of digits; or it consists solely of digits,
  whitespace, hyphens, periods and currency symbols; or it has fewer than 3 characters.
  The currency symbols among the code points of the model are the dollar sign (U+0024),
  the cent sign (U+00A2), the pound sign (U+00A3), the currency sign (U+00A4) and the yen
  sign (U+00A5).
\<close>

definition is_currency_symbol :: "char \<Rightarrow> bool" where
  "is_currency_symbol c = (let n = (of_char c :: nat) in n = 36 \<or> (162 \<le> n \<and> n \<le> 165))"

definition spec_date_like_prefix :: "string \<Rightarrow> bool" where
  "spec_date_like_prefix l =
     (takeWhile is_digit l \<noteq> [] \<and>
      (case dropWhile is_digit l of
         sep # d # rest \<Rightarrow> sep = CHR ''/'' \<and> is_digit d
       | _ \<Rightarrow> False))"

definition spec_numeric_only :: "string \<Rightarrow> bool" where
  "spec_numeric_only l =
     list_all (\<lambda>c. is_digit c \<or> is_space c \<or> c = CHR ''-'' \<or> c = CHR ''.'' \<or> is_currency_symbol c) l"


text \<open>
  The disqualification of a line with the separators and the symbols that the two patterns
  of \<open>_extract_merchant\<close> name: the line starts with a group of digits, a slash or a hyphen,
  and a group of digits; or it consists solely of digits, whitespace, hyphens, periods and
  dollar signs; or it has fewer than 3 characters.
\<close>

definition date_like_prefix :: "string \<Rightarrow> bool" where
  "date_like_prefix l =
     (takeWhile is_digit l \<noteq> [] \<and>
      (case dropWhile is_digit l of
         sep # d # rest \<Rightarrow> (sep = CHR ''/'' \<or> sep = CHR ''-'') \<and> is_digit d
       | _ \<Rightarrow> False))"

definition numeric_only :: "string \<Rightarrow> bool" where
  "numeric_only l =
     list_all (\<lambda>c. is_digit c \<or> is_space c \<or> c = CHR ''-'' \<or> c = CHR ''.'' \<or> c = CHR ''$'') l"

definition disqualified :: "string \<Rightarrow> bool" where
  "disqualified l = (date_like_prefix l \<or> numeric_only l \<or> length l < 3)"

text \<open>A text without numeric tokens: no character of it is a digit.\<close>

definition no_digits :: "string \<Rightarrow> bool" where
  "no_digits txt = list_all (\<lambda>c. \<not> is_digit c) txt"

subsection \<open>Notions for the proofs\<close>

text \<open>A pattern that cannot match without reading a digit.\<close>

fun needs_digit :: "regex \<Rightarrow> bool" where
  "needs_digit (Rep k lo hi) = (k = Digit \<and> 0 < lo)"
| "needs_digit (Seq rs) = list_ex needs_digit rs"
| "needs_digit (Alt rs) = list_all needs_digit rs"
| "needs_digit (Group r) = needs_digit r"
| "needs_digit r = False"

text \<open>
  The bodies of the groups of a pattern, the patterns every match of which captures, and
  the captures that are the text matched by one of the given bodies.
\<close>

fun groups :: "regex \<Rightarrow> regex list" where
  "groups (Group g) = [g]"
| "groups (Alt rs) = concat (map groups rs)"
| "groups (Seq rs) = concat (map groups rs)"
| "groups r = []"

fun always_captures :: "regex \<Rightarrow> bool" where
  "always_captures (Group g) = True"
| "always_captures (Alt rs) = list_all always_captures rs"
| "always_captures (Seq rs) = list_ex always_captures rs"
| "always_captures r = False"

definition from_group :: "regex list \<Rightarrow> string option \<Rightarrow> bool" where
  "from_group gs cap =
     (\<exists>g\<in>set gs. \<exists>p s c e s' c'.
        (e, s', c') \<in> set (matches g (p, s, c)) \<and> cap = Some (take (e - p) s))"

text \<open>A string whose first character satisfies a predicate.\<close>

definition starts :: "(char \<Rightarrow> bool) \<Rightarrow> string \<Rightarrow> bool" where
  "starts P s = (case s of [] \<Rightarrow> False | c # cs \<Rightarrow> P c)"

text \<open>What the loop of \<open>_extract_items\<close> guarantees of every item it appends.\<close>

definition item_ok :: "Item \<Rightarrow> bool" where
  "item_ok i = (name i \<noteq> [] \<and> 2 < length (name i) \<and> float_le (Finite 0) (price i))"

subsection \<open>Inputs for the instances\<close>

text \<open>The recognized text of scenario A of the specification.\<close>

definition scenario_a :: string where
  "scenario_a = ''Walmart Supercenter'' @ [CHR 0x0A] @ ''01/15/2024'' @ [CHR 0x0A] @
     ''Milk 3.99'' @ [CHR 0x0A] @ ''Bread 2.50'' @ [CHR 0x0A] @ ''TOTAL $6.49''"

text \<open>A text with a number beyond the plausible range.\<close>

definition out_of_range_text :: string where
  "out_of_range_text = ''20000.00 5.25''"




text \<open>
  A concrete upload, and a library whose recognition returns a given text, to instantiate
  the statements.
\<close>

definition text_plain_upload :: UploadFile where
  "text_plain_upload = \<lparr>content_type = Some ''text/plain'', contents = [0x25, 0x50, 0x44, 0x46]\<rparr>"

definition stub_library :: "string \<Rightarrow> (8 word list) library" where
  "stub_library txt =
     \<lparr>imdecode = (\<lambda>bytes. Some bytes), enhance = (\<lambda>img. None),
      image_to_string = (\<lambda>img. Inr txt)\<rparr>"

text \<open>An upload declared as an image.\<close>

definition short_upload :: UploadFile where
  "short_upload = \<lparr>content_type = Some ''image/png'', contents = [0x89, 0x50, 0x4E, 0x47]\<rparr>"

section \<open>Properties\<close>

subsection \<open>The matcher\<close>

lemma startswith_iff: "startswith s l \<longleftrightarrow> (\<exists>t. s = l @ t)"
  by (induction s l rule: startswith.induct) auto

lemma matches_Rep_iff:
  "x \<in> set (matches (Rep k lo hi) (p, s, cap)) \<longleftrightarrow>
     (\<exists>j. lo \<le> j \<and> j \<le> length (takeWhile (in_cls k) s) \<and> (\<forall>h. hi = Some h \<longrightarrow> j \<le> h) \<and>
          x = (p + j, drop j s, cap))"
  by (cases hi) (auto simp: Let_def)

lemma matches_suffix:
  "m \<in> set (matches r st) \<Longrightarrow>
     \<exists>t. fst (snd st) = t @ fst (snd m) \<and> fst m = fst st + length t"
proof (induction r st arbitrary: m rule: matches.induct)
  case (1 l pos s cap)
  then show ?case by (auto simp: startswith_iff split: if_splits)
next
  case (2 k lo hi pos s cap)
  then obtain j where j: "j \<le> length (takeWhile (in_cls k) s)" "m = (pos + j, drop j s, cap)"
    unfolding matches_Rep_iff by blast
  have "s = take j s @ drop j s" by simp
  moreover have "length (take j s) = j"
    using j(1) length_takeWhile_le[of "in_cls k" s] by simp
  ultimately show ?case using j(2) by (metis fst_conv snd_conv)
next
  case (3 rs st)
  from 3(2) obtain r where "r \<in> set rs" "m \<in> set (matches r st)" by auto
  from 3(1)[OF this] show ?case .
next
  case (4 st)
  then show ?case by simp
next
  case (5 r rs st)
  from 5(3) obtain y where y: "y \<in> set (matches r st)" "m \<in> set (matches (Seq rs) y)"
    by auto
  from 5(1)[OF y(1)] obtain t1 where t1: "fst (snd st) = t1 @ fst (snd y)" "fst y = fst st + length t1"
    by blast
  from 5(2)[OF y(1) y(2)] obtain t2 where t2: "fst (snd y) = t2 @ fst (snd m)" "fst m = fst y + length t2"
    by blast
  show ?case using t1 t2 by (intro exI[of _ "t1 @ t2"]) simp
next
  case (6 r pos s cap)
  then show ?case by (auto simp: case_prod_beta) 
next
  case (7 pos s cap)
  then show ?case by (auto split: if_splits)
next
  case (8 pos s cap)
  then show ?case by (auto split: if_splits)
qed

lemma matches_no_digit:
  "needs_digit r \<Longrightarrow> \<forall>c\<in>set (fst (snd st)). \<not> is_digit c \<Longrightarrow> matches r st = []"
proof (induction r st rule: matches.induct)
  case (2 k lo hi pos s cap)
  then have "takeWhile (in_cls k) s = []" by (cases s) auto
  with 2 show ?case by (cases hi) (auto simp: Let_def)
next
  case (5 r rs st)
  show ?case
  proof (cases "needs_digit r")
    case True
    with 5 show ?thesis by simp
  next
    case False
    with 5(3) have nd: "needs_digit (Seq rs)" by simp
    have "matches (Seq rs) y = []" if y: "y \<in> set (matches r st)" for y
    proof -
      from matches_suffix[OF y] obtain t where "fst (snd st) = t @ fst (snd y)" by blast
      with 5(4) have "\<forall>c\<in>set (fst (snd y)). \<not> is_digit c" by auto
      from 5(2)[OF y nd this] show ?thesis .
    qed
    then show ?thesis by simp
  qed
next
  case (3 rs st)
  then show ?case by (auto simp: list_all_iff)
qed auto


lemma matches_Lit_iff:
  "m \<in> set (matches (Lit l) (p, s, cap)) \<longleftrightarrow> (\<exists>t. s = l @ t \<and> m = (p + length l, t, cap))"
  by (auto simp: startswith_iff)

lemma matches_Alt_iff:
  "m \<in> set (matches (Alt rs) st) \<longleftrightarrow> (\<exists>r\<in>set rs. m \<in> set (matches r st))"
  by simp

lemma matches_Seq_Nil_iff: "m \<in> set (matches (Seq []) st) \<longleftrightarrow> m = st"
  by simp

lemma matches_Seq_Cons_iff:
  "m \<in> set (matches (Seq (r # rs)) st) \<longleftrightarrow> (\<exists>y\<in>set (matches r st). m \<in> set (matches (Seq rs) y))"
  by simp

lemma matches_Group_iff:
  "m \<in> set (matches (Group r) (p, s, cap)) \<longleftrightarrow>
     (\<exists>e s' c'. (e, s', c') \<in> set (matches r (p, s, cap)) \<and> m = (e, s', Some (take (e - p) s)))"
proof
  assume "m \<in> set (matches (Group r) (p, s, cap))"
  then obtain x where x: "x \<in> set (matches r (p, s, cap))"
    "m = (case x of (pos', s', cap') \<Rightarrow> (pos', s', Some (take (pos' - p) s)))"
    by auto
  obtain e s' c' where "x = (e, s', c')" by (cases x)
  with x show "\<exists>e s' c'. (e, s', c') \<in> set (matches r (p, s, cap)) \<and>
      m = (e, s', Some (take (e - p) s))"
    by auto
next
  assume "\<exists>e s' c'. (e, s', c') \<in> set (matches r (p, s, cap)) \<and>
      m = (e, s', Some (take (e - p) s))"
  then obtain e s' c' where h: "(e, s', c') \<in> set (matches r (p, s, cap))"
    "m = (e, s', Some (take (e - p) s))"
    by blast
  have "(e, s', Some (take (e - p) s)) \<in>
      (\<lambda>(pos', s', cap'). (pos', s', Some (take (pos' - p) s))) ` set (matches r (p, s, cap))"
    using h(1) by (rule rev_image_eqI) simp
  then show "m \<in> set (matches (Group r) (p, s, cap))"
    by (simp add: h(2))
qed

lemma matches_Bol_iff:
  "m \<in> set (matches Bol (p, s, cap)) \<longleftrightarrow> p = 0 \<and> m = (p, s, cap)"
  by auto

lemma matches_Eol_iff:
  "m \<in> set (matches Eol (p, s, cap)) \<longleftrightarrow> (s = [] \<or> s = [CHR 0x0A]) \<and> m = (p, s, cap)"
  by auto

lemma take_le_takeWhile:
  assumes "j \<le> length (takeWhile P s)"
  shows "\<forall>c\<in>set (take j s). P c" and "length (take j s) = j"
proof -
  have "take j (takeWhile P s @ dropWhile P s) = take j (takeWhile P s)"
    using assms by (simp del: takeWhile_dropWhile_id)
  then have eq: "take j s = take j (takeWhile P s)" by simp
  show "\<forall>c\<in>set (take j s). P c"
    unfolding eq by (meson in_set_takeD set_takeWhileD)
  show "length (take j s) = j"
    using assms length_takeWhile_le[of P s] by simp
qed

lemma matches_Rep_text:
  assumes "m \<in> set (matches (Rep k lo hi) (p, s, cap))"
  shows "\<exists>t. s = t @ fst (snd m) \<and> (\<forall>c\<in>set t. in_cls k c) \<and> lo \<le> length t \<and>
           (\<forall>h. hi = Some h \<longrightarrow> length t \<le> h) \<and> fst m = p + length t \<and> snd (snd m) = cap"
proof -
  from assms obtain j where j: "lo \<le> j" "j \<le> length (takeWhile (in_cls k) s)"
    "\<forall>h. hi = Some h \<longrightarrow> j \<le> h" "m = (p + j, drop j s, cap)"
    unfolding matches_Rep_iff by blast
  note tk = take_le_takeWhile[OF j(2)]
  have "s = take j s @ fst (snd m)" using j(4) by simp
  moreover have "fst m = p + length (take j s)" using tk(2) j(4) by simp
  moreover have "snd (snd m) = cap" using j(4) by simp
  moreover have "lo \<le> length (take j s)" using tk(2) j(1) by simp
  moreover have "\<forall>h. hi = Some h \<longrightarrow> length (take j s) \<le> h" using tk(2) j(3) by simp
  ultimately show ?thesis using tk(1) by blast
qed

lemma matches_price_re:
  assumes "m \<in> set (matches price_re (p, s, cap))"
  shows "\<exists>ds fp. ds \<noteq> [] \<and> (\<forall>c\<in>set ds. is_digit c) \<and> (\<forall>c\<in>set fp. is_digit c) \<and>
           length fp = 2 \<and> s = ds @ CHR ''.'' # fp @ fst (snd m) \<and>
           fst m = p + (length ds + 3) \<and> snd (snd m) = cap"
proof -
  from assms obtain m1 m2 where
    m1: "m1 \<in> set (matches (Rep Digit 1 None) (p, s, cap))" and
    m2: "m2 \<in> set (matches (Lit ''.'') m1)" and
    m3: "m \<in> set (matches (Rep Digit 2 (Some 2)) m2)"
    unfolding price_re_def matches_Seq_Cons_iff matches_Seq_Nil_iff by blast
  from matches_Rep_text[OF m1] obtain ds where
    ds: "s = ds @ fst (snd m1)" "\<forall>c\<in>set ds. in_cls Digit c" "1 \<le> length ds"
        "fst m1 = p + length ds" "snd (snd m1) = cap"
    by blast
  have m1_eq: "m1 = (p + length ds, fst (snd m1), cap)"
    using ds(4,5) by (cases m1) auto
  from m2 have "m2 \<in> set (matches (Lit ''.'') (p + length ds, fst (snd m1), cap))"
    by (subst (asm) m1_eq)
  then obtain t where t: "fst (snd m1) = ''.'' @ t" "m2 = (p + length ds + 1, t, cap)"
    unfolding matches_Lit_iff by auto
  from m3 have "m \<in> set (matches (Rep Digit 2 (Some 2)) (p + length ds + 1, t, cap))"
    unfolding t(2) .
  from matches_Rep_text[OF this] obtain fp where
    fp: "t = fp @ fst (snd m)" "\<forall>c\<in>set fp. in_cls Digit c" "2 \<le> length fp"
        "\<forall>h. Some 2 = Some h \<longrightarrow> length fp \<le> h" "fst m = p + length ds + 1 + length fp"
        "snd (snd m) = cap"
    by blast
  from fp(3,4) have len: "length fp = 2" by simp
  have "ds \<noteq> []" using ds(3) by auto
  moreover have "s = ds @ CHR ''.'' # fp @ fst (snd m)" using ds(1) t(1) fp(1) by simp
  moreover have "fst m = p + (length ds + 3)" using fp(5) len by simp
  ultimately show ?thesis
    using ds(2) fp(2,6) len by (intro exI[of _ ds] exI[of _ fp] conjI) simp_all
qed

lemma not_digit_point: "\<not> is_digit CHR ''.''"
  by (simp add: is_digit_def)

lemma takeWhile_digits_point:
  assumes "\<forall>c\<in>set ds. is_digit c"
  shows "takeWhile is_digit (ds @ CHR ''.'' # fp) = ds"
    and "dropWhile is_digit (ds @ CHR ''.'' # fp) = CHR ''.'' # fp"
  using assms by (simp_all add: takeWhile_append2 dropWhile_append2 not_digit_point)

lemma py_float_decimal:
  assumes "ds \<noteq> []" "\<forall>c\<in>set ds. is_digit c" "\<forall>c\<in>set fp. is_digit c"
  shows "py_float (ds @ CHR ''.'' # fp) =
           Some (round_to_double (digits_value (ds @ fp)) (10 ^ length fp))"
  unfolding py_float_def takeWhile_digits_point[OF assms(2)]
  using assms(1,3) by (simp add: list_all_iff)

lemma round_to_double_nonneg: "float_le (Finite 0) (round_to_double n d)"
  by (simp add: round_to_double_def Let_def split: prod.splits)

lemma matches_item_price_re:
  assumes "m \<in> set (matches item_price_re (p, s, None))"
  shows "\<exists>ds fp. snd (snd m) = Some (ds @ CHR ''.'' # fp) \<and> ds \<noteq> [] \<and>
           (\<forall>c\<in>set ds. is_digit c) \<and> (\<forall>c\<in>set fp. is_digit c) \<and> length fp = 2"
proof -
  from assms obtain m1 where
    m1: "m1 \<in> set (matches (Rep (Chars ''$'') 0 (Some 1)) (p, s, None))" and
    m2: "m \<in> set (matches (Group price_re) m1)"
    unfolding item_price_re_def matches_Seq_Cons_iff matches_Seq_Nil_iff by blast
  obtain p1 s1 c1 where m1_eq: "m1 = (p1, s1, c1)" by (cases m1)
  from m2 obtain e s' c' where g: "(e, s', c') \<in> set (matches price_re (p1, s1, c1))"
    "m = (e, s', Some (take (e - p1) s1))"
    unfolding m1_eq matches_Group_iff by blast
  from matches_price_re[OF g(1)] obtain ds fp where
    d: "ds \<noteq> []" "\<forall>c\<in>set ds. is_digit c" "\<forall>c\<in>set fp. is_digit c" "length fp = 2"
       "s1 = ds @ CHR ''.'' # fp @ s'" "e = p1 + (length ds + 3)"
    by auto
  have "take (e - p1) s1 = ds @ CHR ''.'' # fp"
    using d(4,5,6) by simp
  with g(2) d show ?thesis by auto
qed

lemma scan_Matched:
  "Matched t cap \<in> set (scan r pos skip s) \<Longrightarrow>
     \<exists>p' s' e s'' ms. matches r (p', s', None) = (e, s'', cap) # ms"
proof (induction r pos skip s rule: scan.induct)
  case (1 r pos skip)
  show ?case
  proof (cases "matches r (pos, [], None)")
    case Nil
    with "1.prems" show ?thesis by (cases "skip = 0") simp_all
  next
    case (Cons m ms)
    obtain e s' cap' where m: "m = (e, s', cap')" by (cases m)
    with "1.prems" Cons have "cap = cap'" by (cases "skip = 0") simp_all
    with Cons m show ?thesis by blast
  qed
next
  case (2 r pos skip c cs)
  then show ?case by simp
next
  case (3 r pos c cs)
  show ?case
  proof (cases "matches r (pos, c # cs, None)")
    case Nil
    with "3.prems" "3.IH"(1) show ?thesis by simp
  next
    case (Cons m ms)
    obtain e s' cap' where m: "m = (e, s', cap')" by (cases m)
    show ?thesis
    proof (cases "e = pos")
      case True
      with "3.prems" Cons m
      have "cap = cap' \<or> Matched t cap \<in> set (scan r (Suc pos) 0 cs)"
        by auto
      then show ?thesis
      proof
        assume "cap = cap'"
        with Cons m show ?thesis by blast
      next
        assume "Matched t cap \<in> set (scan r (Suc pos) 0 cs)"
        with "3.IH"(2) Cons m True show ?thesis by simp
      qed
    next
      case False
      with "3.prems" Cons m
      have "cap = cap' \<or> Matched t cap \<in> set (scan r (Suc pos) (e - pos - 1) cs)"
        by auto
      then show ?thesis
      proof
        assume "cap = cap'"
        with Cons m show ?thesis by blast
      next
        assume "Matched t cap \<in> set (scan r (Suc pos) (e - pos - 1) cs)"
        with "3.IH"(3) Cons m False show ?thesis by simp
      qed
    qed
  qed
qed


text \<open>Where a capture comes from.\<close>

lemma capture_kept:
  "m \<in> set (matches r st) \<Longrightarrow> snd (snd st) \<noteq> None \<Longrightarrow> snd (snd m) \<noteq> None"
proof (induction r st arbitrary: m rule: matches.induct)
  case (1 l pos s cap)
  then show ?case unfolding matches_Lit_iff by auto
next
  case (2 k lo hi pos s cap)
  then show ?case unfolding matches_Rep_iff by auto
next
  case (3 rs st)
  from "3.prems"(1) obtain r where "r \<in> set rs" "m \<in> set (matches r st)"
    unfolding matches_Alt_iff by blast
  from "3.IH"[OF this "3.prems"(2)] show ?case .
next
  case (4 st)
  then show ?case by simp
next
  case (5 r rs st)
  from "5.prems"(1) obtain y where y: "y \<in> set (matches r st)" "m \<in> set (matches (Seq rs) y)"
    unfolding matches_Seq_Cons_iff by blast
  from "5.IH"(1)[OF y(1) "5.prems"(2)] have "snd (snd y) \<noteq> None" .
  from "5.IH"(2)[OF y(1) y(2) this] show ?case .
next
  case (6 r pos s cap)
  then show ?case unfolding matches_Group_iff by auto
next
  case (7 pos s cap)
  then show ?case unfolding matches_Bol_iff by auto
next
  case (8 pos s cap)
  then show ?case unfolding matches_Eol_iff by auto
qed

lemma capture_made:
  "m \<in> set (matches r st) \<Longrightarrow> always_captures r \<Longrightarrow> snd (snd m) \<noteq> None"
proof (induction r st arbitrary: m rule: matches.induct)
  case (3 rs st)
  from "3.prems"(1) obtain r where r: "r \<in> set rs" "m \<in> set (matches r st)"
    unfolding matches_Alt_iff by blast
  from "3.prems"(2) r(1) have "always_captures r" by (simp add: list_all_iff)
  from "3.IH"[OF r this] show ?case .
next
  case (5 r rs st)
  from "5.prems"(1) obtain y where y: "y \<in> set (matches r st)" "m \<in> set (matches (Seq rs) y)"
    unfolding matches_Seq_Cons_iff by blast
  show ?case
  proof (cases "always_captures r")
    case True
    from "5.IH"(1)[OF y(1) True] have "snd (snd y) \<noteq> None" .
    from capture_kept[OF y(2) this] show ?thesis .
  next
    case False
    with "5.prems"(2) have "always_captures (Seq rs)" by simp
    from "5.IH"(2)[OF y(1) y(2) this] show ?thesis .
  qed
next
  case (6 r pos s cap)
  then show ?case unfolding matches_Group_iff by auto
qed simp_all

lemma from_group_mono:
  "set gs \<subseteq> set gs' \<Longrightarrow> from_group gs cap \<Longrightarrow> from_group gs' cap"
  unfolding from_group_def by blast

lemma capture_origin:
  "m \<in> set (matches r st) \<Longrightarrow>
     snd (snd m) = snd (snd st) \<or> from_group (groups r) (snd (snd m))"
proof (induction r st arbitrary: m rule: matches.induct)
  case (1 l pos s cap)
  then show ?case unfolding matches_Lit_iff by auto
next
  case (2 k lo hi pos s cap)
  then show ?case unfolding matches_Rep_iff by auto
next
  case (3 rs st)
  from "3.prems" obtain r where r: "r \<in> set rs" "m \<in> set (matches r st)"
    unfolding matches_Alt_iff by blast
  from r(1) have sub: "set (groups r) \<subseteq> set (groups (Alt rs))" by auto
  from "3.IH"[OF r] from_group_mono[OF sub] show ?case by blast
next
  case (4 st)
  then show ?case by simp
next
  case (5 r rs st)
  from "5.prems" obtain y where y: "y \<in> set (matches r st)" "m \<in> set (matches (Seq rs) y)"
    unfolding matches_Seq_Cons_iff by blast
  have sub1: "set (groups r) \<subseteq> set (groups (Seq (r # rs)))" by auto
  have sub2: "set (groups (Seq rs)) \<subseteq> set (groups (Seq (r # rs)))" by auto
  from "5.IH"(2)[OF y(1) y(2)] show ?case
  proof
    assume eq: "snd (snd m) = snd (snd y)"
    from "5.IH"(1)[OF y(1)] show ?thesis
    proof
      assume "snd (snd y) = snd (snd st)"
      with eq show ?thesis by simp
    next
      assume "from_group (groups r) (snd (snd y))"
      then have "from_group (groups r) (snd (snd m))" by (simp only: eq)
      from from_group_mono[OF sub1 this] show ?thesis ..
    qed
  next
    assume "from_group (groups (Seq rs)) (snd (snd m))"
    from from_group_mono[OF sub2 this] show ?thesis ..
  qed
next
  case (6 r pos s cap)
  from "6.prems" obtain e s' c' where h: "(e, s', c') \<in> set (matches r (pos, s, cap))"
    "m = (e, s', Some (take (e - pos) s))"
    unfolding matches_Group_iff by blast
  from h(2) have "snd (snd m) = Some (take (e - pos) s)" by simp
  with h(1) have "\<exists>p s0 c e0 s1 c1. (e0, s1, c1) \<in> set (matches r (p, s0, c)) \<and>
      snd (snd m) = Some (take (e0 - p) s0)"
    by blast
  then have "from_group (groups (Group r)) (snd (snd m))"
    unfolding from_group_def by simp
  then show ?case ..
next
  case (7 pos s cap)
  then show ?case unfolding matches_Bol_iff by auto
next
  case (8 pos s cap)
  then show ?case unfolding matches_Eol_iff by auto
qed

subsection \<open>The item extractor\<close>

lemma in_set_map_filter:
  "y \<in> set (List.map_filter f xs) \<longleftrightarrow> (\<exists>x\<in>set xs. f x = Some y)"
  by (induction xs) (auto simp: map_filter_simps split: option.splits)

lemma findall_item_price_re:
  assumes "g \<in> set (re_findall item_price_re line)"
  shows "\<exists>ds fp. g = ds @ CHR ''.'' # fp \<and> ds \<noteq> [] \<and>
           (\<forall>c\<in>set ds. is_digit c) \<and> (\<forall>c\<in>set fp. is_digit c) \<and> length fp = 2"
proof -
  have hg: "has_group item_price_re" by (simp add: item_price_re_def)
  from assms obtain pc where pc: "pc \<in> set (scan item_price_re 0 0 line)"
    "findall_item True pc = Some g"
    unfolding re_findall_def in_set_map_filter using hg by auto
  from pc(2) obtain t cap where m: "pc = Matched t cap"
    "g = (case cap of None \<Rightarrow> [] | Some x \<Rightarrow> x)"
    by (cases pc) auto
  from scan_Matched[OF pc(1)[unfolded m(1)]] obtain p' s' e s'' ms where
    "matches item_price_re (p', s', None) = (e, s'', cap) # ms"
    by blast
  then have "(e, s'', cap) \<in> set (matches item_price_re (p', s', None))" by simp
  from matches_item_price_re[OF this] obtain ds fp where
    "cap = Some (ds @ CHR ''.'' # fp)" "ds \<noteq> []" "\<forall>c\<in>set ds. is_digit c"
    "\<forall>c\<in>set fp. is_digit c" "length fp = 2"
    by auto
  with m(2) show ?thesis by (intro exI[of _ ds] exI[of _ fp]) simp
qed

lemma py_float_price_text:
  assumes "ds \<noteq> []" "\<forall>c\<in>set ds. is_digit c" "\<forall>c\<in>set fp. is_digit c"
  shows "\<exists>f. py_float (ds @ CHR ''.'' # fp) = Some f \<and> float_le (Finite 0) f"
  using py_float_decimal[OF assms] round_to_double_nonneg by simp

lemma items_of_lines_ok:
  "\<forall>i\<in>set its. item_ok i \<Longrightarrow>
     \<exists>its'. items_of_lines lines its = Inr its' \<and> (\<forall>i\<in>set its'. item_ok i)"
proof (induction lines arbitrary: its)
  case Nil
  then show ?case by simp
next
  case (Cons line rest)
  define pm where "pm = re_findall item_price_re line"
  define nm where "nm = strip (re_sub non_word_re '' '' (strip (re_sub item_price_text_re [] line)))"
  show ?case
  proof (cases "pm \<noteq> [] \<and> nm \<noteq> [] \<and> 2 < length nm")
    case False
    then have "items_of_lines (line # rest) its = items_of_lines rest its"
      by (auto simp: pm_def nm_def Let_def)
    with Cons show ?thesis by simp
  next
    case True
    then have "last pm \<in> set (re_findall item_price_re line)" by (simp add: pm_def)
    from findall_item_price_re[OF this] obtain ds fp where
      g: "last pm = ds @ CHR ''.'' # fp" "ds \<noteq> []" "\<forall>c\<in>set ds. is_digit c" "\<forall>c\<in>set fp. is_digit c"
      by blast
    from py_float_price_text[OF g(2,3,4)] g(1) obtain f where
      f: "py_float (last pm) = Some f" "float_le (Finite 0) f"
      by auto
    have step: "items_of_lines (line # rest) its =
        items_of_lines rest (its @ [\<lparr>name = nm, price = f\<rparr>])"
      using True f(1) by (simp add: pm_def nm_def Let_def)
    have "\<forall>i\<in>set (its @ [\<lparr>name = nm, price = f\<rparr>]). item_ok i"
      using Cons.prems True f(2) by (auto simp: item_ok_def)
    from Cons.IH[OF this] step show ?thesis by simp
  qed
qed

lemma extract_items_ok:
  "\<exists>its. extract_items lines = Inr its \<and> length its \<le> 10 \<and> (\<forall>i\<in>set its. item_ok i)"
proof -
  from items_of_lines_ok[of "[]" lines] obtain its' where
    "items_of_lines lines [] = Inr its'" "\<forall>i\<in>set its'. item_ok i"
    by auto
  then show ?thesis
    by (auto simp: extract_items_def dest: in_set_takeD)
qed

lemma py_float_0_00: "py_float ''0.00'' = Some (Finite 0)"
  by (simp add: py_float_def is_digit_def digits_value_def digit_value_def round_to_double_def)

lemma extract_items_milk: "extract_items [''Milk 0.00''] = Inr [\<lparr>name = ''Milk'', price = Finite 0\<rparr>]"
  by (simp add: extract_items_def re_findall_def re_sub_def item_price_re_def price_re_def
        item_price_text_re_def non_word_re_def strip_def is_digit_def is_space_def is_word_def
        Let_def py_float_0_00)

text \<open>
  Claim C8. For every list of lines (hence for every input text), \<open>_extract_items\<close> returns
  a list, and that list has at most 10 entries.
\<close>

theorem extract_items_at_most_ten:
  "\<exists>its. extract_items lines = Inr its \<and> length its \<le> 10"
  using extract_items_ok[of lines] by blast

text \<open>
  Claim C4 states that every item returned has a name of more than 2 characters and a
  price strictly greater than 0. The price part fails: the line \<open>Milk 0.00\<close> gives an
  item whose price is 0, and 0 is not less than 0.
\<close>

theorem extract_items_zero_price_counterexample:
  "extract_items [''Milk 0.00''] = Inr [\<lparr>name = ''Milk'', price = Finite 0\<rparr>] \<and>
   \<not> float_lt (Finite 0) (Finite 0)"
  by (simp add: extract_items_milk)

text \<open>
  Claim C4, amended. For every list of lines, \<open>_extract_items\<close> returns a list, and every
  item of it has a non-empty name of more than 2 characters and a price greater than or
  equal to 0.
\<close>

theorem extract_items_name_and_price:
  "\<exists>its. extract_items lines = Inr its \<and>
     (\<forall>i\<in>set its. name i \<noteq> [] \<and> 2 < length (name i) \<and> float_le (Finite 0) (price i))"
  using extract_items_ok[of lines] unfolding item_ok_def by blast

theorem extract_items_name_and_price_witness:
  "extract_items [''Milk 0.00''] = Inr [\<lparr>name = ''Milk'', price = Finite 0\<rparr>] \<and>
   name \<lparr>name = ''Milk'', price = Finite 0\<rparr> \<noteq> [] \<and>
   2 < length (name \<lparr>name = ''Milk'', price = Finite 0\<rparr>) \<and>
   float_le (Finite 0) (price \<lparr>name = ''Milk'', price = Finite 0\<rparr>)"
  using extract_items_name_and_price[of "[''Milk 0.00'']"]
  by (simp add: extract_items_milk)

subsection \<open>The route and the pipeline\<close>

text \<open>An upload declared as an image is read and decoded.\<close>

lemma parse_receipt_route_reads_image:
  assumes "is_image_type (content_type file)"
  shows "\<exists>res evs'. parse_receipt_route lib file evs = (res, evs @ [FileRead, ImageDecode] @ evs')"
proof (cases "read_image_safely lib file")
  case None
  with assms show ?thesis
    by (simp add: parse_receipt_route_def parse_receipt_def)
next
  case (Some img)
  with assms show ?thesis
    by (simp add: parse_receipt_route_def parse_receipt_def Let_def
          split: sum.splits ocr_result.splits)
qed

text \<open>
  Claim C7. For every upload whose declared content type does not begin with \<open>image/\<close>
  (or is absent), the route answers with the HTTP error 400 \<open>File must be an image\<close>, and
  the list of events is unchanged: the file is not read and no decoding is attempted.
\<close>

theorem parse_receipt_route_rejects_non_image:
  assumes "\<forall>ct. content_type file = Some ct \<longrightarrow> \<not> startswith ct ''image/''"
  shows "parse_receipt_route lib file evs = (HTTPException 400 ''File must be an image'', evs)"
proof -
  have "\<not> is_image_type (content_type file)"
    using assms by (cases "content_type file") (auto simp: is_image_type_def)
  then show ?thesis by (simp add: parse_receipt_route_def)
qed

theorem parse_receipt_route_rejects_non_image_witness:
  "content_type text_plain_upload = Some ''text/plain'' \<and> \<not> startswith ''text/plain'' ''image/'' \<and>
   parse_receipt_route (stub_library []) text_plain_upload [] =
     (HTTPException 400 ''File must be an image'', [])"
  using parse_receipt_route_rejects_non_image[of text_plain_upload "stub_library []" "[]"]
  by (simp add: text_plain_upload_def)

subsection \<open>Values of floats\<close>

lemmas round_defs = round_to_double_def ulp_exponent_def scale2_def round_half_even_def Let_def

text \<open>
  Some values of the rounding: one tenth, 4.35, a number with more digits, \<open>10 ^ 23\<close>
  (which is not a binary64 number), and two ties, one rounded down and one rounded up to
  the even significand.
\<close>

lemma round_to_double_examples:
  "round_to_double 1 10 = Finite (3602879701896397 / 36028797018963968)"
  "round_to_double 435 100 = Finite (2448832297382707 / 562949953421312)"
  "round_to_double 12345678 100 = Finite (4241942660555735 / 34359738368)"
  "round_to_double 100000000000000000000000 1 = Finite 99999999999999991611392"
  "round_to_double 9007199254740993 1 = Finite 9007199254740992"
  "round_to_double 9007199254740995 1 = Finite 9007199254740996"
  by (simp_all add: round_defs)

text \<open>The literal \<open>0.01\<close> is slightly above one hundredth.\<close>

lemma float_0_01: "lit_0_01 = Finite (5764607523034235 / 576460752303423488)"
  by (simp add: lit_0_01_def round_defs)

subsection \<open>The amount extractor\<close>

lemma map_filter_append:
  "List.map_filter f (xs @ ys) = List.map_filter f xs @ List.map_filter f ys"
  by (simp add: List.map_filter_def)

lemma amounts_of_matches_eq:
  "amounts_of_matches ms amounts = amounts @ filter reasonable (List.map_filter py_float ms)"
  by (induction ms arbitrary: amounts) (auto simp: map_filter_simps split: option.splits)

lemma amounts_of_patterns_eq:
  "amounts_of_patterns ps t amounts =
     amounts @ filter reasonable (List.map_filter py_float (concat (map (\<lambda>p. re_findall p t) ps)))"
  by (induction ps arbitrary: amounts) (simp_all add: amounts_of_matches_eq map_filter_append)

lemma float_le_refl: "float_le a a"
  by (cases a) simp_all

lemma float_le_trans: "float_le a b \<Longrightarrow> float_le b c \<Longrightarrow> float_le a c"
  by (cases a; cases b; cases c) simp_all

lemma float_lt_imp_le: "float_lt a b \<Longrightarrow> float_le a b"
  by (cases a; cases b) simp_all

lemma not_float_lt_imp_le: "\<not> float_lt a b \<Longrightarrow> float_le b a"
  by (cases a; cases b) simp_all

lemma py_max_from_mem: "py_max_from m xs \<in> set (m # xs)"
  by (induction xs arbitrary: m) auto

lemma py_max_from_ge:
  "float_le m (py_max_from m xs) \<and> (\<forall>x\<in>set xs. float_le x (py_max_from m xs))"
proof (induction xs arbitrary: m)
  case Nil
  show ?case by (simp add: float_le_refl)
next
  case (Cons x xs)
  define m' where "m' = (if float_lt m x then x else m)"
  have res: "py_max_from m (x # xs) = py_max_from m' xs" by (simp add: m'_def)
  from Cons[of m'] have ih: "float_le m' (py_max_from m' xs)"
    "\<forall>y\<in>set xs. float_le y (py_max_from m' xs)"
    by simp_all
  have "float_le m m'" "float_le x m'"
    by (auto simp: m'_def float_le_refl float_lt_imp_le not_float_lt_imp_le)
  then have "float_le m (py_max_from m' xs)" "float_le x (py_max_from m' xs)"
    using ih(1) float_le_trans by blast+
  with ih(2) res show ?case by simp
qed

lemma reasonable_bounds:
  "reasonable a \<Longrightarrow> \<exists>q. a = Finite q \<and> 1 / 100 \<le> q \<and> q \<le> 10000"
  by (cases a) (auto simp: reasonable_def float_0_01 lit_10000_def)

text \<open>
  A decimal number just below one hundredth is rounded by \<open>float\<close> to the literal
  \<open>0.01\<close>, and is kept by the test \<open>0.01 <= amount\<close>.
\<close>

lemma float_just_below_0_01: "py_float ''0.0099999999999999999999'' = Some lit_0_01"
  by (simp add: py_float_def is_digit_def digits_value_def digit_value_def lit_0_01_def
        round_defs)

lemma extract_amount_eq:
  "extract_amount txt =
     (case surviving_amounts txt of [] \<Rightarrow> None | a # as \<Rightarrow> Some (py_max_from a as))"
  by (simp add: extract_amount_def surviving_amounts_def amount_candidates_def
        amount_matches_def amounts_of_patterns_eq Let_def)

lemma py_float_digits:
  assumes "ds \<noteq> []" "\<forall>c\<in>set ds. is_digit c"
  shows "py_float ds \<noteq> None"
proof -
  from assms(2) have tw: "takeWhile is_digit ds = ds" and dw: "dropWhile is_digit ds = []"
    by simp_all
  show ?thesis unfolding py_float_def tw dw using assms(1) by simp
qed

lemma price_re_capture:
  assumes "(e, s', c') \<in> set (matches price_re (p, s, c))"
  shows "py_float (take (e - p) s) \<noteq> None"
proof -
  from matches_price_re[OF assms] obtain ds fp where
    d: "ds \<noteq> []" "\<forall>c\<in>set ds. is_digit c" "\<forall>c\<in>set fp. is_digit c" "length fp = 2"
       "s = ds @ CHR ''.'' # fp @ s'" "e = p + (length ds + 3)"
    by auto
  have "take (e - p) s = ds @ CHR ''.'' # fp" using d(4,5,6) by simp
  with py_float_decimal[OF d(1,2,3)] show ?thesis by simp
qed

lemma number_re_capture:
  assumes "(e, s', c') \<in> set (matches number_re (p, s, c))"
  shows "py_float (take (e - p) s) \<noteq> None"
proof -
  from assms obtain m1 m2 where
    m1: "m1 \<in> set (matches (Rep Digit 1 None) (p, s, c))" and
    m2: "m2 \<in> set (matches (Rep (Chars ''.'') 0 (Some 1)) m1)" and
    m3: "(e, s', c') \<in> set (matches (Rep Digit 0 None) m2)"
    unfolding number_re_def matches_Seq_Cons_iff matches_Seq_Nil_iff by blast
  obtain p1 s1 c1 where m1_eq: "m1 = (p1, s1, c1)" by (cases m1)
  obtain p2 s2 c2 where m2_eq: "m2 = (p2, s2, c2)" by (cases m2)
  from matches_Rep_text[OF m1] m1_eq obtain ds where
    ds: "s = ds @ s1" "\<forall>c\<in>set ds. in_cls Digit c" "1 \<le> length ds" "p1 = p + length ds"
    by auto
  from matches_Rep_text[OF m2[unfolded m1_eq]] m2_eq obtain dots where
    dots: "s1 = dots @ s2" "\<forall>c\<in>set dots. in_cls (Chars ''.'') c" "length dots \<le> 1"
      "p2 = p1 + length dots"
    by auto
  from matches_Rep_text[OF m3[unfolded m2_eq]] obtain fp where
    fp: "s2 = fp @ s'" "\<forall>c\<in>set fp. in_cls Digit c" "e = p2 + length fp"
    by auto
  have tk: "take (e - p) s = ds @ dots @ fp"
    using ds(1,4) dots(1,4) fp(1,3) by simp
  have ne: "ds \<noteq> []" using ds(3) by auto
  show ?thesis
  proof (cases dots)
    case Nil
    have "py_float (ds @ fp) \<noteq> None"
      using ne ds(2) fp(2) by (intro py_float_digits) auto
    with tk Nil show ?thesis by simp
  next
    case (Cons d rest)
    with dots(2,3) have "dots = [CHR ''.'']" by simp
    with tk py_float_decimal[of ds fp] ne ds(2) fp(2) show ?thesis by simp
  qed
qed

lemma amount_patterns_groups:
  assumes "r \<in> set amount_patterns"
  shows "has_group r" "always_captures r" "set (groups r) \<subseteq> {number_re, price_re}"
  using assms by (auto simp: amount_patterns_def)

lemma amount_match_parses:
  assumes "r \<in> set amount_patterns" "x \<in> set (re_findall r s)"
  shows "py_float x \<noteq> None"
proof -
  note g = amount_patterns_groups[OF assms(1)]
  from assms(2) obtain pc where pc: "pc \<in> set (scan r 0 0 s)" "findall_item True pc = Some x"
    unfolding re_findall_def in_set_map_filter using g(1) by auto
  from pc(2) obtain t cap where m: "pc = Matched t cap"
    "x = (case cap of None \<Rightarrow> [] | Some v \<Rightarrow> v)"
    by (cases pc) auto
  from scan_Matched[OF pc(1)[unfolded m(1)]] obtain p' s' e s'' ms where
    "matches r (p', s', None) = (e, s'', cap) # ms"
    by blast
  then have mem: "(e, s'', cap) \<in> set (matches r (p', s', None))" by simp
  from capture_made[OF mem g(2)] have "cap \<noteq> None" by simp
  with capture_origin[OF mem] have "from_group (groups r) cap" by simp
  then obtain gr p s0 c e0 s1 c1 where
    o: "gr \<in> set (groups r)" "(e0, s1, c1) \<in> set (matches gr (p, s0, c))"
       "cap = Some (take (e0 - p) s0)"
    unfolding from_group_def by blast
  from o(1) g(3) have "gr = number_re \<or> gr = price_re" by auto
  then have "py_float (take (e0 - p) s0) \<noteq> None"
    using o(2) number_re_capture price_re_capture by blast
  with m(2) o(3) show ?thesis by simp
qed

lemma amount_matches_parse: "\<forall>x\<in>set (amount_matches txt). py_float x \<noteq> None"
  unfolding amount_matches_def using amount_match_parses by auto

text \<open>
  Claim C2. For every recognized text, \<open>_extract_amount\<close> goes through all five patterns,
  parses every match (no match is refused by \<open>float\<close>), keeps the values between 0.01 and
  10000, and returns the greatest of them; it returns nothing exactly when no value is
  kept. An amount returned is therefore between 0.01 and 10000, whatever numbers the text
  holds: between the floats that the literals \<open>0.01\<close> and \<open>10000\<close> denote, and between
  one hundredth and ten thousand as exact numbers.
\<close>

theorem extract_amount_max_of_reasonable:
  "length amount_patterns = 5 \<and>
   (\<forall>m\<in>set (amount_matches txt). py_float m \<noteq> None) \<and>
   (extract_amount txt = None \<longleftrightarrow> surviving_amounts txt = []) \<and>
   (\<forall>a. extract_amount txt = Some a \<longrightarrow>
      a \<in> set (surviving_amounts txt) \<and>
      (\<forall>b\<in>set (surviving_amounts txt). float_le b a) \<and>
      float_le lit_0_01 a \<and> float_le a lit_10000 \<and>
      (\<exists>q. a = Finite q \<and> 1 / 100 \<le> q \<and> q \<le> 10000))"
proof (intro conjI allI impI)
  show "length amount_patterns = 5" by (simp add: amount_patterns_def)
  show "\<forall>m\<in>set (amount_matches txt). py_float m \<noteq> None"
    by (rule amount_matches_parse)
  show "extract_amount txt = None \<longleftrightarrow> surviving_amounts txt = []"
    by (simp add: extract_amount_eq split: list.splits)
next
  fix a
  assume "extract_amount txt = Some a"
  then obtain x xs where s: "surviving_amounts txt = x # xs" and a: "a = py_max_from x xs"
    by (auto simp: extract_amount_eq split: list.splits)
  show mem: "a \<in> set (surviving_amounts txt)"
    unfolding s a by (rule py_max_from_mem)
  show "\<forall>b\<in>set (surviving_amounts txt). float_le b a"
    unfolding s a using py_max_from_ge[of x xs] by simp
  from mem have r: "reasonable a" by (simp add: surviving_amounts_def)
  then show "float_le lit_0_01 a" "float_le a lit_10000"
    by (simp_all add: reasonable_def)
  from r show "\<exists>q. a = Finite q \<and> 1 / 100 \<le> q \<and> q \<le> 10000"
    by (rule reasonable_bounds)
qed

lemma float_5_25: "round_to_double 525 100 = Finite (21 / 4)"
  by (simp add: round_defs)

lemma float_20000: "round_to_double 2000000 100 = Finite 20000"
  by (simp add: round_defs)

lemma findall_out_of_range_text:
  "map (\<lambda>p. re_findall p (lower out_of_range_text)) amount_patterns =
     [[], [], [], [''5.25''], [''20000.00'', ''5.25'']]"
  by (simp add: out_of_range_text_def lower_def lower_char_def is_upper_def amount_patterns_def
        number_re_def price_re_def re_findall_def is_digit_def is_space_def Let_def)

lemma py_float_out_of_range_text:
  "py_float ''5.25'' = Some (Finite (21 / 4))"
  "py_float ''20000.00'' = Some (Finite 20000)"
  by (simp_all add: py_float_def is_digit_def digits_value_def digit_value_def
        float_5_25 float_20000)

lemma candidates_out_of_range_text:
  "amount_candidates out_of_range_text = [Finite (21 / 4), Finite 20000, Finite (21 / 4)]"
  using findall_out_of_range_text
  by (simp add: amount_candidates_def amount_matches_def amount_patterns_def map_filter_simps
        py_float_out_of_range_text)

lemma surviving_out_of_range_text:
  "surviving_amounts out_of_range_text = [Finite (21 / 4), Finite (21 / 4)]"
  by (simp add: surviving_amounts_def candidates_out_of_range_text reasonable_def float_0_01
        lit_10000_def)

theorem extract_amount_max_of_reasonable_witness:
  "extract_amount out_of_range_text = Some (Finite (21 / 4)) \<and>
   Finite 20000 \<in> set (amount_candidates out_of_range_text) \<and>
   Finite (21 / 4) \<in> set (surviving_amounts out_of_range_text) \<and>
   float_le lit_0_01 (Finite (21 / 4)) \<and> float_le (Finite (21 / 4)) lit_10000"
  using extract_amount_max_of_reasonable[of out_of_range_text]
  by (simp add: extract_amount_eq surviving_out_of_range_text candidates_out_of_range_text)

subsection \<open>The merchant extractor\<close>

lemma takeWhile_length_ge1: "1 \<le> length (takeWhile P s) \<longleftrightarrow> starts P s"
  by (cases s) (auto simp: starts_def)

lemma re_match_iff: "re_match r s \<noteq> None \<longleftrightarrow> (\<exists>m. m \<in> set (matches r (0, s, None)))"
  by (cases "matches r (0, s, None)") (auto simp: re_match_def)

lemma in_cls_Chars_fun: "in_cls (Chars cs) = (\<lambda>c. c \<in> set cs)"
  by (rule ext) simp

lemma in_cls_Digit_fun: "in_cls Digit = is_digit"
  by (rule ext) simp

lemma matches_Rep_intro:
  assumes "lo \<le> j" "j \<le> length (takeWhile (in_cls k) s)" "\<forall>h. hi = Some h \<longrightarrow> j \<le> h"
  shows "(p + j, drop j s, cap) \<in> set (matches (Rep k lo hi) (p, s, cap))"
  unfolding matches_Rep_iff using assms by blast

lemma matches_Rep_starts:
  assumes "m \<in> set (matches (Rep k 1 hi) (p, s, cap))"
  shows "starts (in_cls k) s"
proof -
  from assms obtain j where "1 \<le> j" "j \<le> length (takeWhile (in_cls k) s)"
    unfolding matches_Rep_iff by blast
  then have "1 \<le> length (takeWhile (in_cls k) s)" by (rule order_trans)
  then show ?thesis by (simp only: takeWhile_length_ge1)
qed

lemma matches_Rep_one:
  assumes "m \<in> set (matches (Rep k 1 (Some 1)) (p, s, cap))"
  shows "m = (p + 1, drop 1 s, cap)"
proof -
  from assms obtain j where j: "1 \<le> j" "\<forall>h. Some 1 = Some h \<longrightarrow> j \<le> h"
    "m = (p + j, drop j s, cap)"
    unfolding matches_Rep_iff by blast
  from j(2) have "j \<le> 1" by blast
  with j(1) have "j = 1" by (rule order_antisym[rotated])
  with j(3) show ?thesis by (simp only:)
qed

lemma date_prefix_matches_iff:
  "(\<exists>m. m \<in> set (matches date_prefix_re (0, l, None))) \<longleftrightarrow>
     (\<exists>j. 1 \<le> j \<and> j \<le> length (takeWhile is_digit l) \<and>
          starts (\<lambda>c. c \<in> set ''/-'') (drop j l) \<and> starts is_digit (drop 1 (drop j l)))"
proof
  assume "\<exists>m. m \<in> set (matches date_prefix_re (0, l, None))"
  then obtain m y1 y2 y3 where
    y1: "y1 \<in> set (matches Bol (0, l, None))" and
    y2: "y2 \<in> set (matches (Rep Digit 1 None) y1)" and
    y3: "y3 \<in> set (matches (Rep (Chars ''/-'') 1 (Some 1)) y2)" and
    m: "m \<in> set (matches (Rep Digit 1 None) y3)"
    unfolding date_prefix_re_def matches_Seq_Cons_iff matches_Seq_Nil_iff by blast
  from y1 have y1_eq: "y1 = (0, l, None)" unfolding matches_Bol_iff by blast
  from y2 obtain j where j: "1 \<le> j" "j \<le> length (takeWhile (in_cls Digit) l)"
    "y2 = (0 + j, drop j l, None)"
    unfolding y1_eq matches_Rep_iff by blast
  from y3 have sep: "starts (in_cls (Chars ''/-'')) (drop j l)"
    unfolding j(3) by (rule matches_Rep_starts)
  from y3 have y3_eq: "y3 = (0 + j + 1, drop 1 (drop j l), None)"
    unfolding j(3) by (rule matches_Rep_one)
  from m have dig: "starts (in_cls Digit) (drop 1 (drop j l))"
    unfolding y3_eq by (rule matches_Rep_starts)
  from j(1,2) sep dig
  show "\<exists>j. 1 \<le> j \<and> j \<le> length (takeWhile is_digit l) \<and>
          starts (\<lambda>c. c \<in> set ''/-'') (drop j l) \<and> starts is_digit (drop 1 (drop j l))"
    unfolding in_cls_Chars_fun in_cls_Digit_fun by blast
next
  assume "\<exists>j. 1 \<le> j \<and> j \<le> length (takeWhile is_digit l) \<and>
          starts (\<lambda>c. c \<in> set ''/-'') (drop j l) \<and> starts is_digit (drop 1 (drop j l))"
  then obtain j where j: "1 \<le> j" "j \<le> length (takeWhile (in_cls Digit) l)"
    "starts (in_cls (Chars ''/-'')) (drop j l)" "starts (in_cls Digit) (drop 1 (drop j l))"
    unfolding in_cls_Chars_fun in_cls_Digit_fun by blast
  have a: "(0, l, None) \<in> set (matches Bol (0, l, None))"
    unfolding matches_Bol_iff by blast
  have b: "(0 + j, drop j l, None) \<in> set (matches (Rep Digit 1 None) (0, l, None))"
    using j(1,2) by (intro matches_Rep_intro) simp_all
  have c: "(0 + j + 1, drop 1 (drop j l), None)
      \<in> set (matches (Rep (Chars ''/-'') 1 (Some 1)) (0 + j, drop j l, None))"
  proof (rule matches_Rep_intro)
    show "(1::nat) \<le> 1" by simp
    show "1 \<le> length (takeWhile (in_cls (Chars ''/-'')) (drop j l))"
      using j(3) by (simp only: takeWhile_length_ge1)
    show "\<forall>h. Some (1::nat) = Some h \<longrightarrow> 1 \<le> h" by simp
  qed
  have d: "(0 + j + 1 + 1, drop 1 (drop 1 (drop j l)), None)
      \<in> set (matches (Rep Digit 1 None) (0 + j + 1, drop 1 (drop j l), None))"
  proof (rule matches_Rep_intro)
    show "(1::nat) \<le> 1" by simp
    show "1 \<le> length (takeWhile (in_cls Digit) (drop 1 (drop j l)))"
      using j(4) by (simp only: takeWhile_length_ge1)
    show "\<forall>h. (None::nat option) = Some h \<longrightarrow> 1 \<le> h" by simp
  qed
  from a b c d show "\<exists>m. m \<in> set (matches date_prefix_re (0, l, None))"
    unfolding date_prefix_re_def matches_Seq_Cons_iff matches_Seq_Nil_iff by blast
qed

lemma not_digit_sep: "c \<in> set ''/-'' \<Longrightarrow> \<not> is_digit c"
  by (auto simp: is_digit_def)

lemma date_prefix_iff: "re_match date_prefix_re l \<noteq> None \<longleftrightarrow> date_like_prefix l"
proof -
  define n where "n = length (takeWhile is_digit l)"
  have drop_n: "drop n l = dropWhile is_digit l"
    by (simp add: n_def dropWhile_eq_drop)
  have "(\<exists>j. 1 \<le> j \<and> j \<le> n \<and> starts (\<lambda>c. c \<in> set ''/-'') (drop j l) \<and>
            starts is_digit (drop 1 (drop j l))) \<longleftrightarrow>
        1 \<le> n \<and> starts (\<lambda>c. c \<in> set ''/-'') (drop n l) \<and> starts is_digit (drop 1 (drop n l))"
  proof
    assume "\<exists>j. 1 \<le> j \<and> j \<le> n \<and> starts (\<lambda>c. c \<in> set ''/-'') (drop j l) \<and>
            starts is_digit (drop 1 (drop j l))"
    then obtain j where j: "1 \<le> j" "j \<le> n" "starts (\<lambda>c. c \<in> set ''/-'') (drop j l)"
      "starts is_digit (drop 1 (drop j l))"
      by blast
    have "j = n"
    proof (rule ccontr)
      assume "j \<noteq> n"
      with j(2) have lt: "j < n" by simp
      then have jl: "j < length l"
        using length_takeWhile_le[of is_digit l] by (simp add: n_def)
      from lt have "is_digit (takeWhile is_digit l ! j)"
        unfolding n_def by (meson nth_mem set_takeWhileD)
      with lt have dig: "is_digit (l ! j)"
        by (simp add: n_def takeWhile_nth)
      from jl have "drop j l = l ! j # drop (Suc j) l"
        by (simp add: Cons_nth_drop_Suc)
      with j(3) have "l ! j \<in> set ''/-''" by (simp add: starts_def)
      with dig not_digit_sep show False by blast
    qed
    with j show "1 \<le> n \<and> starts (\<lambda>c. c \<in> set ''/-'') (drop n l) \<and>
        starts is_digit (drop 1 (drop n l))"
      by simp
  next
    assume "1 \<le> n \<and> starts (\<lambda>c. c \<in> set ''/-'') (drop n l) \<and>
        starts is_digit (drop 1 (drop n l))"
    then show "\<exists>j. 1 \<le> j \<and> j \<le> n \<and> starts (\<lambda>c. c \<in> set ''/-'') (drop j l) \<and>
            starts is_digit (drop 1 (drop j l))"
      by blast
  qed
  also have "\<dots> \<longleftrightarrow> date_like_prefix l"
  proof -
    have n1: "1 \<le> n \<longleftrightarrow> takeWhile is_digit l \<noteq> []"
      by (simp add: n_def Suc_le_eq)
    have "starts (\<lambda>c. c \<in> set ''/-'') r \<and> starts is_digit (drop 1 r) \<longleftrightarrow>
        (case r of
           sep # d # rest \<Rightarrow> (sep = CHR ''/'' \<or> sep = CHR ''-'') \<and> is_digit d
         | _ \<Rightarrow> False)" for r
      by (auto simp: starts_def split: list.splits)
    then show ?thesis
      unfolding drop_n n1 date_like_prefix_def by simp
  qed
  finally show ?thesis
    unfolding re_match_iff date_prefix_matches_iff n_def .
qed

lemma in_numeric_cls:
  "in_cls (Union [Digit, Space, Chars ''-'', Chars ''.'', Chars ''$'']) c \<longleftrightarrow>
     is_digit c \<or> is_space c \<or> c = CHR ''-'' \<or> c = CHR ''.'' \<or> c = CHR ''$''"
  by simp

lemma numeric_only_iff: "re_match numeric_only_re l \<noteq> None \<longleftrightarrow> l \<noteq> [] \<and> numeric_only l"
proof -
  define P where "P = in_cls (Union [Digit, Space, Chars ''-'', Chars ''.'', Chars ''$''])"
  have num: "numeric_only l \<longleftrightarrow> (\<forall>c\<in>set l. P c)"
    unfolding numeric_only_def P_def in_numeric_cls by (simp add: list_all_iff)
  have nl: "P (CHR 0x0A)"
    by (simp add: P_def is_space_def)
  have "re_match numeric_only_re l \<noteq> None \<longleftrightarrow>
      (\<exists>j. 1 \<le> j \<and> j \<le> length (takeWhile P l) \<and> (drop j l = [] \<or> drop j l = [CHR 0x0A]))"
  proof
    assume "re_match numeric_only_re l \<noteq> None"
    then obtain m y1 y2 where
      y1: "y1 \<in> set (matches Bol (0, l, None))" and
      y2: "y2 \<in> set (matches (Rep (Union [Digit, Space, Chars ''-'', Chars ''.'', Chars ''$'']) 1 None) y1)" and
      m: "m \<in> set (matches Eol y2)"
      unfolding re_match_iff numeric_only_re_def matches_Seq_Cons_iff matches_Seq_Nil_iff by blast
    from y1 have y1_eq: "y1 = (0, l, None)" unfolding matches_Bol_iff by blast
    from y2 obtain j where j: "1 \<le> j" "j \<le> length (takeWhile P l)"
      "y2 = (0 + j, drop j l, None)"
      unfolding y1_eq matches_Rep_iff P_def by blast
    from m have "drop j l = [] \<or> drop j l = [CHR 0x0A]"
      unfolding j(3) matches_Eol_iff by blast
    with j(1,2) show "\<exists>j. 1 \<le> j \<and> j \<le> length (takeWhile P l) \<and>
        (drop j l = [] \<or> drop j l = [CHR 0x0A])"
      by blast
  next
    assume "\<exists>j. 1 \<le> j \<and> j \<le> length (takeWhile P l) \<and> (drop j l = [] \<or> drop j l = [CHR 0x0A])"
    then obtain j where j: "1 \<le> j" "j \<le> length (takeWhile P l)"
      "drop j l = [] \<or> drop j l = [CHR 0x0A]"
      by blast
    have a: "(0, l, None) \<in> set (matches Bol (0, l, None))"
      unfolding matches_Bol_iff by blast
    have b: "(0 + j, drop j l, None) \<in>
        set (matches (Rep (Union [Digit, Space, Chars ''-'', Chars ''.'', Chars ''$'']) 1 None) (0, l, None))"
      using j(1,2) unfolding P_def by (intro matches_Rep_intro) simp_all
    have c: "(0 + j, drop j l, None) \<in> set (matches Eol (0 + j, drop j l, None))"
      unfolding matches_Eol_iff using j(3) by blast
    from a b c show "re_match numeric_only_re l \<noteq> None"
      unfolding re_match_iff numeric_only_re_def matches_Seq_Cons_iff matches_Seq_Nil_iff by blast
  qed
  also have "\<dots> \<longleftrightarrow> l \<noteq> [] \<and> (\<forall>c\<in>set l. P c)"
  proof
    assume "\<exists>j. 1 \<le> j \<and> j \<le> length (takeWhile P l) \<and> (drop j l = [] \<or> drop j l = [CHR 0x0A])"
    then obtain j where j: "1 \<le> j" "j \<le> length (takeWhile P l)"
      "drop j l = [] \<or> drop j l = [CHR 0x0A]"
      by blast
    note tk = take_le_takeWhile[OF j(2)]
    have dr: "\<forall>c\<in>set (drop j l). P c" using j(3) nl by auto
    have "\<forall>c\<in>set l. P c"
    proof
      fix c
      assume "c \<in> set l"
      then have "c \<in> set (take j l @ drop j l)" by simp
      then have "c \<in> set (take j l) \<or> c \<in> set (drop j l)"
        by (simp only: set_append Un_iff)
      with tk(1) dr show "P c" by blast
    qed
    moreover from j(1) tk(2) have "l \<noteq> []" by auto
    ultimately show "l \<noteq> [] \<and> (\<forall>c\<in>set l. P c)" by simp
  next
    assume a: "l \<noteq> [] \<and> (\<forall>c\<in>set l. P c)"
    then have "takeWhile P l = l" by (simp add: takeWhile_eq_all_conv)
    then have tw: "length (takeWhile P l) = length l" by (rule arg_cong)
    from a have "1 \<le> length l" by (simp add: Suc_le_eq)
    then show "\<exists>j. 1 \<le> j \<and> j \<le> length (takeWhile P l) \<and>
        (drop j l = [] \<or> drop j l = [CHR 0x0A])"
      unfolding tw by (intro exI[of _ "length l"]) simp
  qed
  finally show ?thesis by (simp add: num)
qed

lemma merchant_of_lines_find:
  "merchant_of_lines ls =
     (case List.find (\<lambda>l. \<not> disqualified l) ls of Some l \<Rightarrow> l | None \<Rightarrow> ''Unknown Merchant'')"
proof (induction ls)
  case Nil
  show ?case by simp
next
  case (Cons l ls)
  have "disqualified l \<longleftrightarrow>
      (re_match date_prefix_re l \<noteq> None \<or> length l < 3) \<or> re_match numeric_only_re l \<noteq> None"
    unfolding date_prefix_iff numeric_only_iff disqualified_def by auto
  with Cons show ?case by (cases "disqualified l") auto
qed


text \<open>
  The test of the code for a date-like prefix is wider than the one the specification
  words, and its test for a numeric line is narrower.
\<close>

lemma spec_date_like_prefix_imp:
  assumes "spec_date_like_prefix l"
  shows "date_like_prefix l"
proof -
  from assms have t: "takeWhile is_digit l \<noteq> []"
    unfolding spec_date_like_prefix_def by blast
  from assms have "case dropWhile is_digit l of
      sep # d # rest \<Rightarrow> sep = CHR ''/'' \<and> is_digit d | _ \<Rightarrow> False"
    unfolding spec_date_like_prefix_def by blast
  then have "case dropWhile is_digit l of
      sep # d # rest \<Rightarrow> (sep = CHR ''/'' \<or> sep = CHR ''-'') \<and> is_digit d | _ \<Rightarrow> False"
    by (cases "dropWhile is_digit l") (simp_all split: list.splits)
  with t show ?thesis
    unfolding date_like_prefix_def by blast
qed

lemma numeric_only_imp_spec:
  assumes "numeric_only l"
  shows "spec_numeric_only l"
proof -
  have "is_currency_symbol (CHR ''$'')" by (simp add: is_currency_symbol_def)
  with assms show ?thesis
    unfolding numeric_only_def spec_numeric_only_def list_all_iff by blast
qed







subsection \<open>Recognized text always parses\<close>

text \<open>
  The merchant is never empty, so the description is always \<open>Receipt from\<close> followed by
  the merchant; \<open>_parse_expense_data\<close> never raises, so \<open>parse_receipt\<close> succeeds as soon
  as the image is read and the text recognized.
\<close>

lemma extract_merchant_nonempty: "extract_merchant ls \<noteq> []"
proof (cases "List.find (\<lambda>l. \<not> disqualified l) (take 5 ls)")
  case None
  then show ?thesis by (simp add: extract_merchant_def merchant_of_lines_find)
next
  case (Some l)
  then have "\<not> disqualified l" by (auto simp: find_Some_iff)
  then have "l \<noteq> []" by (auto simp: disqualified_def)
  with Some show ?thesis by (simp add: extract_merchant_def merchant_of_lines_find)
qed

lemma parse_expense_data_total:
  "\<exists>pd. parse_expense_data txt = Inr pd \<and> description pd = ''Receipt from '' @ merchant pd"
proof -
  from extract_items_ok[of "lines_of txt"] obtain its where
    "extract_items (lines_of txt) = Inr its"
    by blast
  then show ?thesis
    by (simp add: parse_expense_data_def Let_def extract_merchant_nonempty)
qed

lemma parse_receipt_succeeds:
  assumes "read_image_safely lib file = Some img"
    and "image_to_string lib (preprocess_image lib img) = Inr txt"
  shows "\<exists>pd. parse_receipt lib file evs =
           (OcrSuccess txt pd, evs @ [FileRead, ImageDecode, ImageEnhance, TextRecognition])"
proof -
  from parse_expense_data_total[of "txt"] obtain pd where "parse_expense_data txt = Inr pd"
    by blast
  with assms show ?thesis by (simp add: parse_receipt_def Let_def)
qed

subsection \<open>The description of the parsed data\<close>

lemma extract_amount_empty: "extract_amount [] = None"
  by (simp add: extract_amount_def lower_def amount_patterns_def number_re_def price_re_def re_findall_def Let_def)

lemma extract_date_empty: "extract_date [] = None"
  by (simp add: extract_date_def date_patterns_def date_sep_def re_search_def Let_def)

text \<open>
  Claim C5 states that the description is \<open>Receipt expense\<close> when the merchant is the
  placeholder \<open>Unknown Merchant\<close>. On the empty text the merchant is the placeholder, and
  the description computed is \<open>Receipt from Unknown Merchant\<close>: the test \<open>if merchant\<close>
  of \<open>_parse_expense_data\<close> is true of the placeholder, which is not empty. By
  \<open>parse_expense_data_total\<close> above, no text at all yields \<open>Receipt expense\<close>.
\<close>

theorem parse_expense_data_empty_text:
  "parse_expense_data [] =
     Inr \<lparr>amount = None, date = None, merchant = ''Unknown Merchant'', items = [],
          category = ''other'', description = ''Receipt from Unknown Merchant''\<rparr>"
  by (simp add: parse_expense_data_def lines_of_def strip_def extract_merchant_def
        extract_items_def extract_amount_empty extract_date_empty determine_category_def
        any_keyword_def food_keywords_def shopping_keywords_def transport_keywords_def
        bills_keywords_def health_keywords_def lower_def lower_char_def is_upper_def
        char_of_def bit_0 Let_def)

subsection \<open>Texts without digits\<close>

lemma is_digit_lower_char: "is_digit (lower_char c) \<longleftrightarrow> is_digit c"
  by (auto simp: lower_char_def is_upper_def is_digit_def Let_def)

lemma no_digit_lower: "\<forall>c\<in>set s. \<not> is_digit c \<Longrightarrow> \<forall>c\<in>set (lower s). \<not> is_digit c"
  by (simp add: lower_def is_digit_lower_char)

lemma split_on_subset: "w \<in> set (split_on sep s) \<Longrightarrow> set w \<subseteq> set s"
proof (induction s arbitrary: w)
  case Nil
  then show ?case by simp
next
  case (Cons c cs)
  show ?case
  proof (cases "c = sep")
    case True
    with Cons show ?thesis by auto
  next
    case False
    show ?thesis
    proof (cases "split_on sep cs")
      case Nil
      with Cons.prems False show ?thesis by simp
    next
      case (Cons v vs)
      with Cons.prems False have "w = c # v \<or> w \<in> set vs" by simp
      then show ?thesis
      proof
        assume "w = c # v"
        moreover have "set v \<subseteq> set cs" using Cons.IH[of v] Cons by simp
        ultimately show ?thesis by auto
      next
        assume "w \<in> set vs"
        then have "set w \<subseteq> set cs" using Cons.IH[of w] Cons by simp
        then show ?thesis by auto
      qed
    qed
  qed
qed

lemma strip_subset: "set (strip s) \<subseteq> set s"
proof -
  have a: "set (dropWhile P xs) \<subseteq> set xs" for P and xs :: string
    by (meson set_dropWhileD subsetI)
  have "set (dropWhile is_space (rev (dropWhile is_space s))) \<subseteq> set (rev (dropWhile is_space s))"
    by (rule a)
  then have "set (strip s) \<subseteq> set (dropWhile is_space s)"
    by (simp only: strip_def set_rev)
  also have "\<dots> \<subseteq> set s" by (rule a)
  finally show ?thesis .
qed

lemma lines_of_subset: "l \<in> set (lines_of txt) \<Longrightarrow> set l \<subseteq> set txt"
proof -
  assume "l \<in> set (lines_of txt)"
  then obtain w where w: "w \<in> set (split_on (CHR 0x0A) txt)" "l = strip w"
    by (auto simp: lines_of_def)
  from split_on_subset[OF w(1)] strip_subset[of w] w(2) show ?thesis by simp
qed

lemma scan_no_digit:
  assumes "needs_digit r" "\<forall>c\<in>set s. \<not> is_digit c"
  shows "scan r pos 0 s = map Unmatched s"
  using assms(2)
proof (induction s arbitrary: pos)
  case Nil
  have "matches r (pos, [], None) = []"
    by (rule matches_no_digit[OF assms(1)]) simp
  then show ?case by simp
next
  case (Cons c cs)
  have "matches r (pos, c # cs, None) = []"
    by (rule matches_no_digit[OF assms(1)]) (use Cons.prems in simp)
  with Cons show ?case by simp
qed

lemma re_findall_no_digit:
  assumes "needs_digit r" "\<forall>c\<in>set s. \<not> is_digit c"
  shows "re_findall r s = []"
proof -
  have "List.map_filter (findall_item g) (map Unmatched t) = []" for g t
    by (induction t) (simp_all add: map_filter_simps)
  then show ?thesis
    by (simp add: re_findall_def scan_no_digit[OF assms])
qed

lemma search_from_no_digit:
  assumes "needs_digit r" "\<forall>c\<in>set s. \<not> is_digit c"
  shows "search_from r pos s = None"
  using assms(2)
proof (induction s arbitrary: pos)
  case Nil
  have "matches r (pos, [], None) = []"
    by (rule matches_no_digit[OF assms(1)]) simp
  then show ?case by simp
next
  case (Cons c cs)
  have "matches r (pos, c # cs, None) = []"
    by (rule matches_no_digit[OF assms(1)]) (use Cons.prems in simp)
  with Cons show ?case by simp
qed

lemma needs_digit_patterns:
  "\<forall>p\<in>set amount_patterns. needs_digit p"
  "\<forall>p\<in>set date_patterns. needs_digit p"
  "needs_digit item_price_re"
  by (simp_all add: amount_patterns_def number_re_def date_patterns_def item_price_re_def
        price_re_def date_sep_def)

lemma amounts_no_digit:
  assumes "\<forall>c\<in>set txt. \<not> is_digit c"
  shows "extract_amount txt = None"
proof -
  have "re_findall p (lower txt) = []" if "p \<in> set amount_patterns" for p
    using that needs_digit_patterns(1) no_digit_lower[OF assms] by (intro re_findall_no_digit) auto
  then have c: "concat (map (\<lambda>p. re_findall p (lower txt)) amount_patterns) = []" by simp
  show ?thesis
    unfolding extract_amount_eq surviving_amounts_def amount_candidates_def amount_matches_def c
    by (simp add: map_filter_simps)
qed

lemma first_date_no_digit:
  assumes "\<forall>c\<in>set txt. \<not> is_digit c" "\<forall>p\<in>set ps. needs_digit p"
  shows "first_date ps txt = None"
  using assms(2)
proof (induction ps)
  case Nil
  show ?case by simp
next
  case (Cons p ps)
  then have "re_search p txt = None"
    using search_from_no_digit[OF _ assms(1)] by (simp add: re_search_def)
  with Cons show ?case by simp
qed

lemma date_no_digit: "\<forall>c\<in>set txt. \<not> is_digit c \<Longrightarrow> extract_date txt = None"
  unfolding extract_date_def by (rule first_date_no_digit[OF _ needs_digit_patterns(2)])

lemma items_of_lines_no_digit:
  "\<forall>l\<in>set ls. \<forall>c\<in>set l. \<not> is_digit c \<Longrightarrow> items_of_lines ls its = Inr its"
proof (induction ls)
  case Nil
  show ?case by simp
next
  case (Cons l ls)
  then have "re_findall item_price_re l = []"
    by (intro re_findall_no_digit needs_digit_patterns(3)) simp
  with Cons show ?case by simp
qed

lemma items_no_digit:
  assumes "\<forall>c\<in>set txt. \<not> is_digit c"
  shows "extract_items (lines_of txt) = Inr []"
proof -
  have "\<forall>l\<in>set (lines_of txt). \<forall>c\<in>set l. \<not> is_digit c"
    using lines_of_subset assms by blast
  then show ?thesis by (simp add: extract_items_def items_of_lines_no_digit)
qed

lemma category_sentinel: "determine_category ''Unknown Merchant'' its = ''other''"
  by (simp add: determine_category_def any_keyword_def food_keywords_def shopping_keywords_def
        transport_keywords_def bills_keywords_def health_keywords_def lower_def lower_char_def
        is_upper_def char_of_def bit_0 Let_def)

lemma parse_expense_data_no_digit:
  assumes "\<forall>c\<in>set txt. \<not> is_digit c"
  shows "parse_expense_data txt =
     Inr \<lparr>amount = None, date = None, merchant = extract_merchant (lines_of txt), items = [],
          category = determine_category (extract_merchant (lines_of txt)) [],
          description =
            (if extract_merchant (lines_of txt) \<noteq> []
             then ''Receipt from '' @ extract_merchant (lines_of txt) else ''Receipt expense'')\<rparr>"
  by (simp add: parse_expense_data_def amounts_no_digit[OF assms] date_no_digit[OF assms]
        items_no_digit[OF assms] Let_def)

text \<open>
  Claim C3 states that on every text without numeric tokens the merchant is
  \<open>Unknown Merchant\<close> and the category \<open>other\<close>. The text \<open>Walmart\<close> has no digit; its
  merchant is \<open>Walmart\<close> and its category \<open>shopping\<close>.
\<close>

theorem no_digits_merchant_counterexample:
  "no_digits ''Walmart'' \<and>
   parse_expense_data ''Walmart'' =
     Inr \<lparr>amount = None, date = None, merchant = ''Walmart'', items = [],
          category = ''shopping'', description = ''Receipt from Walmart''\<rparr>"
proof -
  have nd: "\<forall>c\<in>set ''Walmart''. \<not> is_digit c" by (simp add: is_digit_def)
  have l: "lines_of ''Walmart'' = [''Walmart'']"
    by (simp add: lines_of_def strip_def is_space_def)
  have m: "extract_merchant [''Walmart''] = ''Walmart''"
    by (simp add: extract_merchant_def merchant_of_lines_find disqualified_def
          date_like_prefix_def numeric_only_def is_digit_def is_space_def)
  have c: "determine_category ''Walmart'' [] = ''shopping''"
    by (simp add: determine_category_def any_keyword_def food_keywords_def shopping_keywords_def
          lower_def lower_char_def is_upper_def char_of_def bit_0 Let_def)
  show ?thesis
    by (simp add: parse_expense_data_no_digit[OF nd] l m c no_digits_def is_digit_def)
qed

text \<open>
  Claim C3, amended. For every recognized text without a digit, \<open>parse_receipt\<close> succeeds,
  with no amount and no items; the merchant is the first of the first 5 trimmed non-empty
  lines that is not disqualified, and \<open>Unknown Merchant\<close> when there is none; the category
  is the one \<open>_determine_category\<close> gives for the merchant, which is \<open>other\<close> for
  \<open>Unknown Merchant\<close>.
\<close>

theorem no_digits_pipeline_succeeds:
  assumes "no_digits txt"
    and "read_image_safely lib file = Some img"
    and "image_to_string lib (preprocess_image lib img) = Inr txt"
  shows "\<exists>pd. fst (parse_receipt lib file evs) = OcrSuccess txt pd \<and>
           amount pd = None \<and> items pd = [] \<and>
           merchant pd =
             (case List.find (\<lambda>l. \<not> disqualified l) (take 5 (lines_of txt)) of
                Some l \<Rightarrow> l
              | None \<Rightarrow> ''Unknown Merchant'') \<and>
           category pd = determine_category (merchant pd) [] \<and>
           (merchant pd = ''Unknown Merchant'' \<longrightarrow> category pd = ''other'')"
proof -
  from assms(1) have nd: "\<forall>c\<in>set txt. \<not> is_digit c"
    by (simp add: no_digits_def list_all_iff)
  note pd = parse_expense_data_no_digit[OF nd]
  have m: "extract_merchant (lines_of txt) =
      (case List.find (\<lambda>l. \<not> disqualified l) (take 5 (lines_of txt)) of
         Some l \<Rightarrow> l
       | None \<Rightarrow> ''Unknown Merchant'')"
    by (simp add: extract_merchant_def merchant_of_lines_find)
  show ?thesis
    using assms(2,3) m
    by (auto simp: parse_receipt_def pd Let_def category_sentinel)
qed

lemma lines_of_ab: "lines_of ''ab'' = [''ab'']"
  by (simp add: lines_of_def strip_def is_space_def)

theorem no_digits_pipeline_succeeds_witness:
  "no_digits ''ab'' \<and>
   read_image_safely (stub_library ''ab'') short_upload = Some [0x89, 0x50, 0x4E, 0x47] \<and>
   fst (parse_receipt (stub_library ''ab'') short_upload []) =
     OcrSuccess ''ab''
       \<lparr>amount = None, date = None, merchant = ''Unknown Merchant'', items = [],
        category = ''other'', description = ''Receipt from Unknown Merchant''\<rparr>"
proof -
  have a: "no_digits ''ab''" by (simp add: no_digits_def is_digit_def)
  have b: "read_image_safely (stub_library ''ab'') short_upload = Some [0x89, 0x50, 0x4E, 0x47]"
    by (simp add: read_image_safely_def stub_library_def short_upload_def)
  have c: "image_to_string (stub_library ''ab'')
      (preprocess_image (stub_library ''ab'') [0x89, 0x50, 0x4E, 0x47]) = Inr ''ab''"
    by (simp add: stub_library_def)
  have nd: "\<forall>c\<in>set ''ab''. \<not> is_digit c" by (simp add: is_digit_def)
  have m: "extract_merchant (lines_of ''ab'') = ''Unknown Merchant''"
    by (simp add: lines_of_ab extract_merchant_def merchant_of_lines_find disqualified_def)
  from no_digits_pipeline_succeeds[OF a b c, of "[]"] a b show ?thesis
    by (auto simp: parse_receipt_def c parse_expense_data_no_digit[OF nd] m category_sentinel Let_def)
qed

subsection \<open>Scenario A\<close>

text \<open>
  The floats of the scenario are written \<open>round_to_double n 100\<close>, the binary64 number
  nearest to \<open>n / 100\<close>, which is what the Python literals \<open>6.49\<close>, \<open>3.99\<close> and \<open>2.50\<close>
  denote; their exact values follow.
\<close>

lemma float_6_49: "round_to_double 649 100 = Finite (3653545197704315 / 562949953421312)"
  by (simp add: round_defs)

lemma float_3_99: "round_to_double 399 100 = Finite (2246170314151035 / 562949953421312)"
  by (simp add: round_defs)

lemma float_2_50: "round_to_double 250 100 = Finite (5 / 2)"
  by (simp add: round_defs)

lemma py_float_scenario_a:
  "py_float ''6.49'' = Some (round_to_double 649 100)"
  "py_float ''3.99'' = Some (round_to_double 399 100)"
  "py_float ''2.50'' = Some (round_to_double 250 100)"
  by (simp_all add: py_float_def is_digit_def digits_value_def digit_value_def)

lemma reasonable_scenario_a:
  "reasonable (round_to_double 649 100)"
  "reasonable (round_to_double 399 100)"
  "reasonable (round_to_double 250 100)"
  by (simp_all add: reasonable_def float_0_01 lit_10000_def float_6_49 float_3_99 float_2_50)

lemma lines_of_scenario_a:
  "lines_of scenario_a =
     [''Walmart Supercenter'', ''01/15/2024'', ''Milk 3.99'', ''Bread 2.50'', ''TOTAL $6.49'']"
  by (simp add: scenario_a_def lines_of_def strip_def is_space_def)

lemma merchant_scenario_a:
  "extract_merchant
     [''Walmart Supercenter'', ''01/15/2024'', ''Milk 3.99'', ''Bread 2.50'', ''TOTAL $6.49''] =
   ''Walmart Supercenter''"
  by (simp add: extract_merchant_def re_match_def date_prefix_re_def numeric_only_re_def
        is_digit_def is_space_def Let_def)

lemma date_scenario_a: "extract_date scenario_a = Some ''01/15/2024''"
  by (simp add: scenario_a_def extract_date_def date_patterns_def date_sep_def re_search_def
        group1_def is_digit_def Let_def)

lemma lower_scenario_a:
  "lower scenario_a = ''walmart supercenter'' @ [CHR 0x0A] @ ''01/15/2024'' @ [CHR 0x0A] @
     ''milk 3.99'' @ [CHR 0x0A] @ ''bread 2.50'' @ [CHR 0x0A] @ ''total $6.49''"
  by (simp add: scenario_a_def lower_def lower_char_def is_upper_def char_of_def bit_0 Let_def)

lemma findall_scenario_a:
  "map (\<lambda>p. re_findall p (lower scenario_a)) amount_patterns =
     [[''6.49''], [], [''6.49''], [''2.50'', ''6.49''], [''3.99'', ''2.50'', ''6.49'']]"
  by (simp add: lower_scenario_a amount_patterns_def number_re_def price_re_def re_findall_def
        is_digit_def is_space_def Let_def)

lemma amount_scenario_a: "extract_amount scenario_a = Some (round_to_double 649 100)"
proof -
  have "amounts_of_patterns amount_patterns (lower scenario_a) [] =
      [round_to_double 649 100, round_to_double 649 100, round_to_double 250 100,
       round_to_double 649 100, round_to_double 399 100, round_to_double 250 100,
       round_to_double 649 100]"
    using findall_scenario_a
    by (simp add: amount_patterns_def py_float_scenario_a reasonable_scenario_a)
  then show ?thesis
    by (simp add: extract_amount_def float_6_49 float_3_99 float_2_50)
qed

lemma items_scenario_a:
  "extract_items
     [''Walmart Supercenter'', ''01/15/2024'', ''Milk 3.99'', ''Bread 2.50'', ''TOTAL $6.49''] =
   Inr [\<lparr>name = ''Milk'', price = round_to_double 399 100\<rparr>,
        \<lparr>name = ''Bread'', price = round_to_double 250 100\<rparr>,
        \<lparr>name = ''TOTAL'', price = round_to_double 649 100\<rparr>]"
  by (simp add: extract_items_def re_findall_def re_sub_def item_price_re_def price_re_def
        item_price_text_re_def non_word_re_def strip_def is_digit_def is_space_def is_word_def
        Let_def py_float_scenario_a)

lemma category_scenario_a: "determine_category ''Walmart Supercenter'' its = ''shopping''"
  by (simp add: determine_category_def any_keyword_def food_keywords_def shopping_keywords_def
        lower_def lower_char_def is_upper_def char_of_def bit_0 Let_def)

text \<open>
  Claim C1 states that on the text of scenario A the items are exactly \<open>Milk\<close> at 3.99 and
  \<open>Bread\<close> at 2.50. They are not: the line \<open>TOTAL $6.49\<close> holds a price and its name
  \<open>TOTAL\<close> has more than 2 characters, so it is an item as well.
\<close>

theorem scenario_a_items_counterexample:
  "map_sum id items (parse_expense_data scenario_a) \<noteq>
     Inr [\<lparr>name = ''Milk'', price = round_to_double 399 100\<rparr>,
          \<lparr>name = ''Bread'', price = round_to_double 250 100\<rparr>]"
  by (simp add: parse_expense_data_def lines_of_scenario_a items_scenario_a Let_def)

text \<open>
  Claim C1, amended. On the text of scenario A, \<open>_parse_expense_data\<close> returns merchant
  \<open>Walmart Supercenter\<close>, date \<open>01/15/2024\<close>, amount 6.49, category \<open>shopping\<close>, and
  the three items \<open>Milk\<close> at 3.99, \<open>Bread\<close> at 2.50 and \<open>TOTAL\<close> at 6.49, in that order.
\<close>

theorem parse_expense_data_scenario_a:
  "parse_expense_data scenario_a =
     Inr \<lparr>amount = Some (round_to_double 649 100), date = Some ''01/15/2024'',
          merchant = ''Walmart Supercenter'',
          items = [\<lparr>name = ''Milk'', price = round_to_double 399 100\<rparr>,
                   \<lparr>name = ''Bread'', price = round_to_double 250 100\<rparr>,
                   \<lparr>name = ''TOTAL'', price = round_to_double 649 100\<rparr>],
          category = ''shopping'', description = ''Receipt from Walmart Supercenter''\<rparr>"
  by (simp add: parse_expense_data_def lines_of_scenario_a merchant_scenario_a date_scenario_a
        amount_scenario_a items_scenario_a category_scenario_a Let_def)

subsection \<open>The category classifier\<close>

text \<open>
  Claim C9. For every merchant string and any two item lists, \<open>_determine_category\<close>
  returns the same category: the result depends on the merchant only, never on the items.
\<close>

theorem determine_category_ignores_items:
  "determine_category mrch items1 = determine_category mrch items2"
  by (simp add: determine_category_def)

text \<open>
  Claim C10. For every merchant string and item list, \<open>_determine_category\<close> never returns
  the value of \<open>ENTERTAINMENT\<close>: its result is the value of one of the six other members of
  \<open>ExpenseCategory\<close>.
\<close>

theorem determine_category_never_entertainment:
  "determine_category mrch its \<noteq> category_value ENTERTAINMENT \<and>
   determine_category mrch its \<in>
     category_value ` {FOOD, SHOPPING, TRANSPORT, BILLS, HEALTHCARE, OTHER}"
  by (simp add: determine_category_def Let_def)

end
